theory Spec2Isabelle
  imports Complex_Main "HOL-Library.Sublist" "HOL-Library.Multiset"
begin

section \<open>Configuration tables of \<^verbatim>\<open>main.py\<close>\<close>

text \<open>
  \<^verbatim>\<open>YEAR_TO_API_CODE\<close>, \<^verbatim>\<open>COLUMN_MAPPING\<close> and \<^verbatim>\<open>CUTOFF_COLUMNS\<close>. Python dictionaries keep
  the order in which their entries were written, and the program iterates over them, so
  they are association lists here.
\<close>

definition YEAR_TO_API_CODE :: "(int \<times> string) list" where
  "YEAR_TO_API_CODE =
     [(2024, ''1C''), (2023, ''2C''), (2022, ''3C''), (2021, ''4C''), (2020, ''5C'')]"

definition COLUMN_MAPPING :: "(string \<times> string) list" where
  "COLUMN_MAPPING =
     [(''coc'', ''College Code''),
      (''con'', ''College Name''),
      (''brc'', ''Branch Code''),
      (''brn'', ''Branch Name''),
      (''OC'', ''OC Cutoff''),
      (''BC'', ''BC Cutoff''),
      (''BCM'', ''BCM Cutoff''),
      (''MBC'', ''MBC Cutoff''),
      (''SC'', ''SC Cutoff''),
      (''SCA'', ''SCA Cutoff''),
      (''ST'', ''ST Cutoff''),
      (''octl'', ''OC Total Seats''),
      (''ocal'', ''OC Allotted Seats''),
      (''bctl'', ''BC Total Seats''),
      (''bcal'', ''BC Allotted Seats''),
      (''bcmtl'', ''BCM Total Seats''),
      (''bcmal'', ''BCM Allotted Seats''),
      (''mbctl'', ''MBC Total Seats''),
      (''mbcal'', ''MBC Allotted Seats''),
      (''sctl'', ''SC Total Seats''),
      (''scal'', ''SC Allotted Seats''),
      (''scatl'', ''SCA Total Seats''),
      (''scaal'', ''SCA Allotted Seats''),
      (''sttl'', ''ST Total Seats''),
      (''stal'', ''ST Allotted Seats'')]"

definition CUTOFF_COLUMNS :: "string list" where
  "CUTOFF_COLUMNS =
     [''OC Cutoff'', ''BC Cutoff'', ''BCM Cutoff'', ''MBC Cutoff'', ''SC Cutoff'',
      ''SCA Cutoff'', ''ST Cutoff'']"

text \<open>The pairs the filter loop of \<^verbatim>\<open>apply_filters\<close> runs over (community key, cutoff column).\<close>

definition COMMUNITY_COLUMNS :: "(string \<times> string) list" where
  "COMMUNITY_COLUMNS =
     [(''oc'', ''OC Cutoff''), (''bc'', ''BC Cutoff''), (''bcm'', ''BCM Cutoff''),
      (''mbc'', ''MBC Cutoff''), (''sc'', ''SC Cutoff''), (''sca'', ''SCA Cutoff''),
      (''st'', ''ST Cutoff'')]"

section \<open>Tables\<close>

text \<open>
  A cell of a data frame is null (\<^verbatim>\<open>None\<close>, \<^verbatim>\<open>NaN\<close>, \<^verbatim>\<open>pd.NA\<close>), a string or a number. A
  number stands for the real it denotes; \<^verbatim>\<open>NaN\<close> is the null cell. A row gives one cell to
  every column label, in column order; a data frame is its column labels and its rows. A
  raw record of the API is a JSON object with scalar values, an association list of the
  same shape.
\<close>

datatype cell = NA | Str string | Num real

type_synonym row = "(string \<times> cell) list"

record dataframe =
  columns :: "string list"
  rows :: "row list"

datatype error = TypeError | ValueError | AttributeError | KeyError | ReError

definition cell_of :: "row \<Rightarrow> string \<Rightarrow> cell" where
  "cell_of r c = (case map_of r c of Some v \<Rightarrow> v | None \<Rightarrow> NA)"

text \<open>\<^verbatim>\<open>df[c]\<close>: the cells of column \<open>c\<close>, one per row.\<close>

definition column :: "dataframe \<Rightarrow> string \<Rightarrow> cell list" where
  "column df c = map (\<lambda>r. cell_of r c) (rows df)"

text \<open>\<^verbatim>\<open>df.empty\<close>: no rows or no columns.\<close>

definition empty_df :: "dataframe \<Rightarrow> bool" where
  "empty_df df = (rows df = [] \<or> columns df = [])"

text \<open>\<^verbatim>\<open>df[mask]\<close>: the rows whose mask entry is true, in their order.\<close>

definition select :: "bool list \<Rightarrow> dataframe \<Rightarrow> dataframe" where
  "select keep df = df\<lparr>rows := map snd (filter fst (zip keep (rows df)))\<rparr>"

section \<open>Library operations\<close>

text \<open>
  The operations of pandas, numpy and \<^verbatim>\<open>re\<close> that the program calls and whose result is
  not fixed by the program text are parameters, collected in one record. Each works on a
  whole column, as the call does, and those that may raise return a sum.
  \<^item> \<open>numeric_of_string\<close>: the number \<^verbatim>\<open>pd.to_numeric\<close> reads from a string, if any;
  \<^item> \<open>astype_str\<close>: \<^verbatim>\<open>Series.astype(str)\<close>;
  \<^item> \<open>str_contains\<close>: \<^verbatim>\<open>Series.str.contains(pat, case=False, na=False)\<close>, which compiles
    \<open>pat\<close> as a regular expression and raises when it does not compile or when the column
    has no string accessor;
  \<^item> \<open>str_upper\<close>: \<^verbatim>\<open>Series.str.upper()\<close>;
  \<^item> \<open>argsort\<close>: \<^verbatim>\<open>ndarray.argsort(kind='quicksort')\<close> on the non-null keys of a column,
    the positions of the keys in sorted order; it raises when two keys cannot be compared.
\<close>

record pandas =
  numeric_of_string :: "string \<Rightarrow> real option"
  astype_str :: "cell list \<Rightarrow> string list"
  str_contains :: "string \<Rightarrow> cell list \<Rightarrow> error + bool list"
  str_upper :: "cell list \<Rightarrow> error + cell list"
  argsort :: "cell list \<Rightarrow> error + nat list"

section \<open>Command line arguments\<close>

datatype format = Excel | Pdf | Csv

datatype sort_order = Asc | Desc

text \<open>
  The namespace \<^verbatim>\<open>parse_args\<close> returns. An option that was not given is \<open>None\<close>. The
  fourteen cutoff bounds are read with \<^verbatim>\<open>getattr(args, f"min_{key}_cutoff", None)\<close>, so they
  are two functions of the community key.
\<close>

record args =
  year :: int
  output_file :: "string option"
  format :: format
  list_colleges :: bool
  list_branches :: bool
  list_sortable_columns :: bool
  filter_college_code :: "string option"
  filter_college_name :: "string option"
  filter_branch_code :: "string option"
  filter_branch_name :: "string option"
  min_cutoff :: "string \<Rightarrow> real option"
  max_cutoff :: "string \<Rightarrow> real option"
  sort_by :: "string option"
  sort_order :: sort_order

text \<open>Python's truth value of an optional string: \<^verbatim>\<open>None\<close> and \<^verbatim>\<open>''\<close> are false.\<close>

fun truthy :: "string option \<Rightarrow> bool" where
  "truthy None = False"
| "truthy (Some s) = (s \<noteq> [])"

text \<open>\<^verbatim>\<open>str.upper\<close> and \<^verbatim>\<open>str.lower\<close> on ASCII letters; other characters are kept.\<close>

definition upper_char :: "char \<Rightarrow> char" where
  "upper_char c =
     (let n = (of_char c :: nat) in if 97 \<le> n \<and> n \<le> 122 then char_of (n - 32) else c)"

definition lower_char :: "char \<Rightarrow> char" where
  "lower_char c =
     (let n = (of_char c :: nat) in if 65 \<le> n \<and> n \<le> 90 then char_of (n + 32) else c)"

definition upper :: "string \<Rightarrow> string" where
  "upper s = map upper_char s"

definition lower :: "string \<Rightarrow> string" where
  "lower s = map lower_char s"

section \<open>\<^verbatim>\<open>apply_filters\<close>\<close>

definition and_then :: "error + 'a \<Rightarrow> ('a \<Rightarrow> error + 'b) \<Rightarrow> error + 'b" where
  "and_then m f = (case m of Inl e \<Rightarrow> Inl e | Inr x \<Rightarrow> f x)"

text \<open>
  \<^verbatim>\<open>if args.filter_college_code:
      df = df[df['College Code'].astype(str) == str(args.filter_college_code)]\<close>
  A label that no column bears raises \<^verbatim>\<open>KeyError\<close>. When two columns bear it,
  \<^verbatim>\<open>df['College Code']\<close> is a frame, so is the mask, and the selection raises
  \<^verbatim>\<open>ValueError\<close>.
\<close>

definition college_code_filter :: "pandas \<Rightarrow> args \<Rightarrow> dataframe \<Rightarrow> error + dataframe" where
  "college_code_filter P a df =
     (case filter_college_code a of
        None \<Rightarrow> Inr df
      | Some s \<Rightarrow>
          if s = [] then Inr df
          else if ''College Code'' \<notin> set (columns df) then Inl KeyError
          else if count_list (columns df) ''College Code'' \<noteq> 1 then Inl ValueError
          else Inr (select (map (\<lambda>x. x = s) (astype_str P (column df ''College Code''))) df))"

text \<open>
  \<^verbatim>\<open>if args.filter_college_name:
      df = df[df['College Name'].str.contains(args.filter_college_name, case=False, na=False)]\<close>
  and the same on \<^verbatim>\<open>'Branch Name'\<close>. A label that no column bears raises \<^verbatim>\<open>KeyError\<close>;
  when two columns bear it, \<^verbatim>\<open>df[c]\<close> is a frame, which has no accessor \<^verbatim>\<open>str\<close>.
\<close>

definition name_filter :: "pandas \<Rightarrow> string option \<Rightarrow> string \<Rightarrow> dataframe \<Rightarrow> error + dataframe" where
  "name_filter P pat c df =
     (case pat of
        None \<Rightarrow> Inr df
      | Some s \<Rightarrow>
          if s = [] then Inr df
          else if c \<notin> set (columns df) then Inl KeyError
          else if count_list (columns df) c \<noteq> 1 then Inl AttributeError
          else (case str_contains P s (column df c) of
                  Inl e \<Rightarrow> Inl e
                | Inr keep \<Rightarrow> Inr (select keep df)))"

text \<open>
  \<^verbatim>\<open>if args.filter_branch_code:
      df = df[df['Branch Code'].str.upper() == args.filter_branch_code.upper()]\<close>
  with the same two errors of the label.
\<close>

definition branch_code_filter :: "pandas \<Rightarrow> args \<Rightarrow> dataframe \<Rightarrow> error + dataframe" where
  "branch_code_filter P a df =
     (case filter_branch_code a of
        None \<Rightarrow> Inr df
      | Some s \<Rightarrow>
          if s = [] then Inr df
          else if ''Branch Code'' \<notin> set (columns df) then Inl KeyError
          else if count_list (columns df) ''Branch Code'' \<noteq> 1 then Inl AttributeError
          else (case str_upper P (column df ''Branch Code'') of
                  Inl e \<Rightarrow> Inl e
                | Inr up \<Rightarrow> Inr (select (map (\<lambda>x. x = Str (upper s)) up) df)))"

text \<open>
  \<^verbatim>\<open>df[col] >= bound\<close> and \<^verbatim>\<open>df[col] <= bound\<close> on a numeric column: a comparison with
  \<^verbatim>\<open>NaN\<close> is false.
\<close>

fun cell_ge :: "cell \<Rightarrow> real \<Rightarrow> bool" where
  "cell_ge (Num v) b = (b \<le> v)"
| "cell_ge _ b = False"

fun cell_le :: "cell \<Rightarrow> real \<Rightarrow> bool" where
  "cell_le (Num v) b = (v \<le> b)"
| "cell_le _ b = False"

text \<open>One round of the loop over the seven communities.\<close>

definition cutoff_filter :: "args \<Rightarrow> dataframe \<Rightarrow> string \<times> string \<Rightarrow> dataframe" where
  "cutoff_filter a df kc =
     (let df1 = (case min_cutoff a (fst kc) of
                   None \<Rightarrow> df
                 | Some b \<Rightarrow> select (map (\<lambda>x. cell_ge x b) (column df (snd kc))) df)
      in (case max_cutoff a (fst kc) of
            None \<Rightarrow> df1
          | Some b \<Rightarrow> select (map (\<lambda>x. cell_le x b) (column df1 (snd kc))) df1))"

definition apply_filters :: "pandas \<Rightarrow> dataframe \<Rightarrow> args \<Rightarrow> error + dataframe" where
  "apply_filters P df a =
     (if empty_df df then Inr df
      else
        and_then (college_code_filter P a df) (\<lambda>df.
        and_then (name_filter P (filter_college_name a) ''College Name'' df) (\<lambda>df.
        and_then (branch_code_filter P a df) (\<lambda>df.
        and_then (name_filter P (filter_branch_name a) ''Branch Name'' df) (\<lambda>df.
        Inr (foldl (cutoff_filter a) df COMMUNITY_COLUMNS))))))"

text \<open>
  What the claim about the cutoff bounds says of one row, in the specification's words: for
  each community, a bound that is set is met by a cutoff that is a number within it.
\<close>

definition within_bounds :: "args \<Rightarrow> row \<Rightarrow> bool" where
  "within_bounds a r =
     (\<forall>kc \<in> set COMMUNITY_COLUMNS.
        (case min_cutoff a (fst kc) of
           None \<Rightarrow> True
         | Some b \<Rightarrow> (case cell_of r (snd kc) of Num v \<Rightarrow> b \<le> v | _ \<Rightarrow> False)) \<and>
        (case max_cutoff a (fst kc) of
           None \<Rightarrow> True
         | Some b \<Rightarrow> (case cell_of r (snd kc) of Num v \<Rightarrow> v \<le> b | _ \<Rightarrow> False)))"

section \<open>\<^verbatim>\<open>process_data\<close>\<close>

text \<open>
  \<^verbatim>\<open>pd.DataFrame(raw_data)\<close> on a list of dictionaries: the columns are the keys in the
  order in which they are first seen, and a record without a key has a null cell there.
\<close>

fun first_seen :: "'a list \<Rightarrow> 'a list \<Rightarrow> 'a list" where
  "first_seen seen [] = seen"
| "first_seen seen (k # ks) = first_seen (if k \<in> set seen then seen else seen @ [k]) ks"

definition DataFrame :: "row list \<Rightarrow> dataframe" where
  "DataFrame raw =
     (let cols = first_seen [] (concat (map (map fst) raw))
      in \<lparr>columns = cols, rows = map (\<lambda>r. map (\<lambda>c. (c, cell_of r c)) cols) raw\<rparr>)"

text \<open>\<^verbatim>\<open>df.drop(columns=[c])\<close>\<close>

definition drop_column :: "string \<Rightarrow> dataframe \<Rightarrow> dataframe" where
  "drop_column c df =
     \<lparr>columns = filter (\<lambda>k. k \<noteq> c) (columns df),
      rows = map (filter (\<lambda>kv. fst kv \<noteq> c)) (rows df)\<rparr>"

text \<open>\<^verbatim>\<open>df.rename(columns=m)\<close>: a label that is a key of \<open>m\<close> is replaced, any other is kept.\<close>

definition renamed :: "(string \<times> string) list \<Rightarrow> string \<Rightarrow> string" where
  "renamed m k = (case map_of m k of Some v \<Rightarrow> v | None \<Rightarrow> k)"

definition rename :: "(string \<times> string) list \<Rightarrow> dataframe \<Rightarrow> dataframe" where
  "rename m df =
     \<lparr>columns = map (renamed m) (columns df),
      rows = map (map (\<lambda>kv. (renamed m (fst kv), snd kv))) (rows df)\<rparr>"

text \<open>
  \<^verbatim>\<open>if new_col_name not in df.columns:
      df[new_col_name] = pd.NA\<close>
\<close>

definition ensure_column :: "dataframe \<Rightarrow> string \<Rightarrow> dataframe" where
  "ensure_column df c =
     (if c \<in> set (columns df) then df
      else \<lparr>columns = columns df @ [c], rows = map (\<lambda>r. r @ [(c, NA)]) (rows df)\<rparr>)"

text \<open>\<^verbatim>\<open>pd.to_numeric(..., errors='coerce')\<close> on one cell: what does not parse becomes null.\<close>

definition to_numeric :: "pandas \<Rightarrow> cell \<Rightarrow> cell" where
  "to_numeric P x =
     (case x of
        NA \<Rightarrow> NA
      | Num v \<Rightarrow> Num v
      | Str s \<Rightarrow> (case numeric_of_string P s of Some v \<Rightarrow> Num v | None \<Rightarrow> NA))"

text \<open>\<^verbatim>\<open>df[c] = f(df[c])\<close>, cell by cell.\<close>

definition map_column :: "string \<Rightarrow> (cell \<Rightarrow> cell) \<Rightarrow> dataframe \<Rightarrow> dataframe" where
  "map_column c f df =
     df\<lparr>rows := map (map (\<lambda>kv. if fst kv = c then (c, f (snd kv)) else kv)) (rows df)\<rparr>"

text \<open>
  \<^verbatim>\<open>if col in df.columns:
      df[col] = pd.to_numeric(df[col], errors='coerce')\<close>
  When two columns bear the label, \<^verbatim>\<open>df[col]\<close> is a frame and \<^verbatim>\<open>to_numeric\<close> raises.
\<close>

definition convert_cutoff :: "pandas \<Rightarrow> string \<Rightarrow> dataframe \<Rightarrow> error + dataframe" where
  "convert_cutoff P c df =
     (if c \<notin> set (columns df) then Inr df
      else if count_list (columns df) c \<noteq> 1 then Inl TypeError
      else Inr (map_column c (to_numeric P) df))"

text \<open>
  \<^verbatim>\<open>if col in df.columns:
      df[col] = pd.to_numeric(df[col], errors='coerce').astype('Int64')\<close>
  The cast to the nullable integer type keeps nulls and raises on a number that is not
  whole or that no 64-bit integer holds (\<^verbatim>\<open>TypeError: cannot safely cast non-equivalent
  float64 to int64\<close>).
\<close>

definition whole :: "cell \<Rightarrow> bool" where
  "whole x = (case x of Num v \<Rightarrow> of_int \<lfloor>v\<rfloor> = v | _ \<Rightarrow> True)"

definition in_int64 :: "cell \<Rightarrow> bool" where
  "in_int64 x = (case x of Num v \<Rightarrow> - (2 ^ 63) \<le> v \<and> v < 2 ^ 63 | _ \<Rightarrow> True)"

definition convert_seats :: "pandas \<Rightarrow> string \<Rightarrow> dataframe \<Rightarrow> error + dataframe" where
  "convert_seats P c df =
     (if c \<notin> set (columns df) then Inr df
      else if count_list (columns df) c \<noteq> 1 then Inl TypeError
      else if \<forall>x \<in> set (column df c). whole (to_numeric P x) \<and> in_int64 (to_numeric P x)
        then Inr (map_column c (to_numeric P) df)
      else Inl TypeError)"

text \<open>
  \<^verbatim>\<open>seat_cols = [col for col in COLUMN_MAPPING.values()
                 if 'Seats' in col and col not in CUTOFF_COLUMNS]\<close>
\<close>

definition seat_cols :: "string list" where
  "seat_cols =
     filter (\<lambda>col. sublist ''Seats'' col \<and> col \<notin> set CUTOFF_COLUMNS) (map snd COLUMN_MAPPING)"

text \<open>\<^verbatim>\<open>df[labels]\<close>: for each label in turn, every column that bears it.\<close>

definition select_columns :: "string list \<Rightarrow> dataframe \<Rightarrow> dataframe" where
  "select_columns cs df =
     \<lparr>columns = concat (map (\<lambda>c. filter (\<lambda>k. k = c) (columns df)) cs),
      rows = map (\<lambda>r. concat (map (\<lambda>c. filter (\<lambda>kv. fst kv = c) r) cs)) (rows df)\<rparr>"

text \<open>A \<^verbatim>\<open>for\<close> loop whose body may raise.\<close>

fun for_each :: "('a \<Rightarrow> 'b \<Rightarrow> error + 'b) \<Rightarrow> 'a list \<Rightarrow> 'b \<Rightarrow> error + 'b" where
  "for_each f [] s = Inr s"
| "for_each f (x # xs) s = (case f x s of Inl e \<Rightarrow> Inl e | Inr s' \<Rightarrow> for_each f xs s')"

definition reorder :: "dataframe \<Rightarrow> dataframe" where
  "reorder df =
     (let ordered_columns = filter (\<lambda>col. col \<in> set (columns df)) (map snd COLUMN_MAPPING);
          extra_columns = filter (\<lambda>col. col \<notin> set ordered_columns) (columns df)
      in select_columns (ordered_columns @ extra_columns) df)"

definition process_data :: "pandas \<Rightarrow> row list \<Rightarrow> error + dataframe" where
  "process_data P raw_data =
     (if raw_data = [] then Inr \<lparr>columns = [], rows = []\<rparr>
      else
        (let df = DataFrame raw_data;
             df = (if ''_id'' \<in> set (columns df) then drop_column ''_id'' df else df);
             df = rename COLUMN_MAPPING df;
             df = foldl ensure_column df (map snd COLUMN_MAPPING)
         in and_then (for_each (convert_cutoff P) CUTOFF_COLUMNS df) (\<lambda>df.
            and_then (for_each (convert_seats P) seat_cols df) (\<lambda>df.
            Inr (reorder df)))))"

text \<open>
  The shape of a table that \<^verbatim>\<open>process_data\<close> hands to the filter and the sort: distinct
  labels with every canonical name among them, rows that follow the labels, numbers or
  nulls in the cutoff columns and whole numbers or nulls in the seat columns.
\<close>

definition normalized :: "dataframe \<Rightarrow> bool" where
  "normalized df =
     (distinct (columns df) \<and>
      set (map snd COLUMN_MAPPING) \<subseteq> set (columns df) \<and>
      (\<forall>r \<in> set (rows df).
         map fst r = columns df \<and>
         (\<forall>c \<in> set CUTOFF_COLUMNS. case cell_of r c of Str s \<Rightarrow> False | _ \<Rightarrow> True) \<and>
         (\<forall>c \<in> set seat_cols. case cell_of r c of Str s \<Rightarrow> False | x \<Rightarrow> whole x)))"

section \<open>\<^verbatim>\<open>apply_sorting\<close>\<close>

text \<open>What the program prints, message by message; the wording is left out.\<close>

datatype message =
    PisaImportWarning
  | ParserError
  | SortableColumns
  | InvalidYear int
  | FetchFailed int
  | NoDataFound int
  | NoDataToProcess
  | NotAvailable string
  | Listing string "(cell \<times> cell) list"
  | UniqueValues string "cell list"
  | NoMatch
  | SortColumnNotFound string "string list"
  | SortError string error
  | Saved string
  | SaveError format string
  | PdfUnavailable
  | PdfSkipped
  | PdfAdvice
  | PdfCreateError
  | Traceback error

text \<open>
  The name of the column to sort by:
  \<^verbatim>\<open>if args.sort_by in COLUMN_MAPPING.values():
      sort_column_actual_name = args.sort_by
  else:
      for k, v in COLUMN_MAPPING.items():
          if args.sort_by.lower() in v.lower() or args.sort_by.lower() in k.lower():
              sort_column_actual_name = v
              break
      if not sort_column_actual_name:
          if args.sort_by in COLUMN_MAPPING.keys():
              sort_column_actual_name = COLUMN_MAPPING[args.sort_by]\<close>
\<close>

definition matches :: "string \<Rightarrow> string \<times> string \<Rightarrow> bool" where
  "matches s kv = (sublist (lower s) (lower (snd kv)) \<or> sublist (lower s) (lower (fst kv)))"

definition resolve_sort_column :: "string \<Rightarrow> string option" where
  "resolve_sort_column s =
     (if s \<in> set (map snd COLUMN_MAPPING) then Some s
      else (case find (matches s) COLUMN_MAPPING of
              Some kv \<Rightarrow> Some (snd kv)
            | None \<Rightarrow> map_of COLUMN_MAPPING s))"

datatype na_position = First | Last

text \<open>
  \<^verbatim>\<open>df.sort_values(by=by, ascending=ascending, na_position=na_position)\<close> on one column.
  pandas sets the rows with a null key aside, sorts the others with numpy's
  \<^verbatim>\<open>argsort\<close> (for a descending sort on the reversed rows, reversing the result) and puts
  the null rows at the end or at the beginning. The program names no \<^verbatim>\<open>kind\<close>, so the
  sort is numpy's default one, and which of two rows with equal keys comes first is up to
  \<open>argsort\<close>. A label that is not unique raises.
\<close>

definition sort_values ::
    "pandas \<Rightarrow> string \<Rightarrow> bool \<Rightarrow> na_position \<Rightarrow> dataframe \<Rightarrow> error + dataframe" where
  "sort_values P by ascending na_pos df =
     (if by \<notin> set (columns df) then Inl KeyError
      else if count_list (columns df) by \<noteq> 1 then Inl ValueError
      else
        (let non_nans = filter (\<lambda>r. cell_of r by \<noteq> NA) (rows df);
             nans = filter (\<lambda>r. cell_of r by = NA) (rows df);
             items = (if ascending then non_nans else rev non_nans)
         in (case argsort P (map (\<lambda>r. cell_of r by) items) of
               Inl e \<Rightarrow> Inl e
             | Inr indexer \<Rightarrow>
                 (let taken = map (\<lambda>i. items ! i) indexer;
                      ordered = (if ascending then taken else rev taken)
                  in Inr (df\<lparr>rows := (case na_pos of
                                         Last \<Rightarrow> ordered @ nans
                                       | First \<Rightarrow> nans @ ordered)\<rparr>)))))"

text \<open>
  What numpy promises of \<^verbatim>\<open>argsort\<close> whatever the kind: when it returns, the result holds
  every position of its argument once.
\<close>

definition permuting :: "pandas \<Rightarrow> bool" where
  "permuting P = (\<forall>ks ix. argsort P ks = Inr ix \<longrightarrow> mset ix = mset [0..<length ks])"

text \<open>
  \<^verbatim>\<open>apply_sorting\<close> returns the table and what it printed. Nothing is done on an empty
  table or without \<^verbatim>\<open>--sort-by\<close>; a name that resolves to no column of the table is
  reported; and the sort stands in a \<^verbatim>\<open>try\<close>, so that an exception of \<^verbatim>\<open>sort_values\<close> is
  printed and the table is returned as it was:
  \<^verbatim>\<open>ascending_order = args.sort_order == 'asc'
  try:
      na_position = 'last' if ascending_order else 'first'
      if sort_column_actual_name in CUTOFF_COLUMNS:
          df = df.sort_values(by=sort_column_actual_name, ascending=ascending_order,
                              na_position=na_position)
      else:
          df = df.sort_values(by=sort_column_actual_name, ascending=ascending_order,
                              na_position='last')
  except Exception as e:
      print(f"Error sorting by column '{sort_column_actual_name}': {e}", file=sys.stderr)
  return df\<close>
\<close>

definition apply_sorting :: "pandas \<Rightarrow> dataframe \<Rightarrow> args \<Rightarrow> dataframe \<times> message list" where
  "apply_sorting P df a =
     (if empty_df df \<or> \<not> truthy (sort_by a) then (df, [])
      else
        (let s = the (sort_by a) in
         (case resolve_sort_column s of
            None \<Rightarrow> (df, [SortColumnNotFound s (columns df)])
          | Some c \<Rightarrow>
              if c = [] \<or> c \<notin> set (columns df) then (df, [SortColumnNotFound s (columns df)])
              else
                (let ascending_order = (sort_order a = Asc);
                     na_pos = (if ascending_order then Last else First)
                 in (case (if c \<in> set CUTOFF_COLUMNS
                           then sort_values P c ascending_order na_pos df
                           else sort_values P c ascending_order Last df) of
                       Inl e \<Rightarrow> (df, [SortError c e])
                     | Inr df' \<Rightarrow> (df', []))))))"

text \<open>
  The rows of a table with the non-null keys of column \<open>c\<close> first and the null ones last,
  and the other way round.
\<close>

definition nulls_last :: "string \<Rightarrow> row list \<Rightarrow> bool" where
  "nulls_last c rs =
     (rs = filter (\<lambda>r. cell_of r c \<noteq> NA) rs @ filter (\<lambda>r. cell_of r c = NA) rs)"

definition nulls_first :: "string \<Rightarrow> row list \<Rightarrow> bool" where
  "nulls_first c rs =
     (rs = filter (\<lambda>r. cell_of r c = NA) rs @ filter (\<lambda>r. cell_of r c \<noteq> NA) rs)"

section \<open>Export and listing\<close>

text \<open>
  The world of one run: what \<^verbatim>\<open>fetch_tnea_data\<close> returns for an API code (\<open>None\<close> when the
  request fails), the renderer \<^verbatim>\<open>pisa\<close> (\<open>None\<close> when the import of \<^verbatim>\<open>xhtml2pdf\<close> failed) and
  whether writing a table to a file in a format goes through.
\<close>

datatype pisa_status = Created | Failed | Raised

record environment =
  fetch_tnea_data :: "string \<Rightarrow> row list option"
  pisa :: "(dataframe \<Rightarrow> string \<Rightarrow> pisa_status) option"
  to_file :: "format \<Rightarrow> dataframe \<Rightarrow> string \<Rightarrow> bool"

type_synonym effects = "message list \<times> (string \<times> format \<times> dataframe) list"

text \<open>The module's import of the renderer: a warning when it is missing, nothing else.\<close>

definition import_pisa :: "environment \<Rightarrow> message list" where
  "import_pisa env = (case pisa env of None \<Rightarrow> [PisaImportWarning] | Some r \<Rightarrow> [])"

text \<open>
  \<^verbatim>\<open>df.fillna(text)\<close>: every null cell becomes the text. The seat columns have the nullable
  integer type, which holds no text: when one of them has a null, the call raises
  \<^verbatim>\<open>TypeError\<close>.
\<close>

definition fillna :: "string \<Rightarrow> dataframe \<Rightarrow> error + dataframe" where
  "fillna text df =
     (if \<exists>r \<in> set (rows df). \<exists>c \<in> set seat_cols. c \<in> set (columns df) \<and> cell_of r c = NA
        then Inl TypeError
      else Inr (df\<lparr>rows :=
                  map (map (\<lambda>kv. if snd kv = NA then (fst kv, Str text) else kv)) (rows df)\<rparr>))"

text \<open>
  The three writers stand in a \<^verbatim>\<open>try\<close> each: an exception of \<^verbatim>\<open>fillna\<close> or of the writing
  is printed and no file is reported. \<^verbatim>\<open>save_to_pdf\<close> returns before that when there is no
  renderer.
\<close>

definition save_to_excel :: "environment \<Rightarrow> dataframe \<Rightarrow> string \<Rightarrow> effects" where
  "save_to_excel env df filename =
     (case fillna ''N/A'' df of
        Inl e \<Rightarrow> ([SaveError Excel filename], [])
      | Inr df_display \<Rightarrow>
          if to_file env Excel df_display filename
            then ([Saved filename], [(filename, Excel, df_display)])
          else ([SaveError Excel filename], []))"

definition save_to_csv :: "environment \<Rightarrow> dataframe \<Rightarrow> string \<Rightarrow> effects" where
  "save_to_csv env df filename =
     (case fillna [] df of
        Inl e \<Rightarrow> ([SaveError Csv filename], [])
      | Inr df_display \<Rightarrow>
          if to_file env Csv df_display filename
            then ([Saved filename], [(filename, Csv, df_display)])
          else ([SaveError Csv filename], []))"

definition save_to_pdf :: "environment \<Rightarrow> dataframe \<Rightarrow> string \<Rightarrow> effects" where
  "save_to_pdf env df filename =
     (case pisa env of
        None \<Rightarrow> ([PdfUnavailable], [])
      | Some CreatePDF \<Rightarrow>
          (case fillna ''N/A'' df of
             Inl e \<Rightarrow> ([SaveError Pdf filename], [])
           | Inr df_display \<Rightarrow>
               if \<not> to_file env Pdf df_display filename then ([SaveError Pdf filename], [])
               else (case CreatePDF df_display filename of
                       Created \<Rightarrow> ([Saved filename], [(filename, Pdf, df_display)])
                     | Failed \<Rightarrow> ([PdfCreateError], [])
                     | Raised \<Rightarrow> ([SaveError Pdf filename], []))))"

text \<open>
  \<^verbatim>\<open>list_unique_values\<close>: the distinct pairs of a code and a name, sorted by the name. The
  sort is not guarded, so an error of the sort is an error of the listing.
\<close>

definition unique_pairs :: "pandas \<Rightarrow> dataframe \<Rightarrow> string \<Rightarrow> string \<Rightarrow> error + dataframe" where
  "unique_pairs P df code_column column_name =
     (if code_column \<notin> set (columns df) then Inl KeyError
      else
        (let pairs = select_columns [code_column, column_name] df;
             pairs = pairs\<lparr>rows := first_seen [] (rows pairs)\<rparr>
         in sort_values P column_name True Last pairs))"

definition list_unique_values ::
    "pandas \<Rightarrow> dataframe \<Rightarrow> string \<Rightarrow> string \<Rightarrow> error + message list" where
  "list_unique_values P df column_name display_name =
     (if empty_df df \<or> column_name \<notin> set (columns df) then Inr [NotAvailable display_name]
      else and_then (unique_pairs P df ''College Code'' column_name) (\<lambda>unique_items.
        if column_name = ''College Name''
          then Inr [Listing display_name
                      (map (\<lambda>r. (cell_of r ''College Code'', cell_of r column_name))
                         (rows unique_items))]
        else if column_name = ''Branch Name''
          then and_then (unique_pairs P df ''Branch Code'' column_name) (\<lambda>unique_branches.
                 Inr [Listing display_name
                        (map (\<lambda>r. (cell_of r ''Branch Code'', cell_of r column_name))
                           (rows unique_branches))])
        else Inr [UniqueValues display_name (first_seen [] (column df column_name))]))"

section \<open>\<^verbatim>\<open>main\<close>\<close>

text \<open>
  One run of the program: the exit status, what was printed and the files written. The
  record \<open>args\<close> holds the values of the options as the parser converts them, and the
  parser's check of the year is the first step of the run: \<^verbatim>\<open>--year\<close> is declared with
  \<^verbatim>\<open>type=int, choices=YEAR_TO_API_CODE.keys(), required=True\<close>, so \<^verbatim>\<open>parse_args\<close> rejects
  any other year with \<^verbatim>\<open>parser.error\<close>, which exits with status 2. The look-up of the API
  code that follows in \<^verbatim>\<open>main\<close>, with its exit status 1, is kept as it is written. An
  exception nobody catches ends the run with a traceback and status 1; a run that reaches
  the end of \<^verbatim>\<open>main\<close> has status 0.
\<close>

record run =
  exit_code :: int
  printed :: "message list"
  files :: "(string \<times> format \<times> dataframe) list"

definition exit_with :: "int \<Rightarrow> message list \<Rightarrow> run" where
  "exit_with n ms = \<lparr>exit_code = n, printed = ms, files = []\<rparr>"

definition export :: "environment \<Rightarrow> dataframe \<Rightarrow> args \<Rightarrow> effects" where
  "export env df a =
     (if truthy (output_file a) then
        (case format a of
           Excel \<Rightarrow> save_to_excel env df (the (output_file a))
         | Csv \<Rightarrow> save_to_csv env df (the (output_file a))
         | Pdf \<Rightarrow> (if pisa env \<noteq> None then save_to_pdf env df (the (output_file a))
                  else ([PdfSkipped, PdfAdvice], [])))
      else ([], []))"

definition main :: "pandas \<Rightarrow> environment \<Rightarrow> args \<Rightarrow> run" where
  "main P env a =
     (if year a \<notin> set (map fst YEAR_TO_API_CODE) then exit_with 2 [ParserError]
      else if list_sortable_columns a then exit_with 0 [SortableColumns]
      else if \<not> (list_colleges a \<or> list_branches a) \<and> \<not> truthy (output_file a)
        then exit_with 2 [ParserError]
      else if \<not> truthy (map_of YEAR_TO_API_CODE (year a)) then exit_with 1 [InvalidYear (year a)]
      else
        (case fetch_tnea_data env (the (map_of YEAR_TO_API_CODE (year a))) of
           None \<Rightarrow> exit_with 1 [FetchFailed (year a)]
         | Some raw_data \<Rightarrow>
             if raw_data = [] then exit_with 0 [NoDataFound (year a)]
             else
               (case process_data P raw_data of
                  Inl e \<Rightarrow> exit_with 1 [Traceback e]
                | Inr df \<Rightarrow>
                    if empty_df df then exit_with 0 [NoDataToProcess]
                    else if list_colleges a then
                      (case list_unique_values P df ''College Name'' ''Colleges'' of
                         Inl e \<Rightarrow> exit_with 1 [Traceback e]
                       | Inr ms \<Rightarrow> exit_with 0 ms)
                    else if list_branches a then
                      (case list_unique_values P df ''Branch Name'' ''Branches'' of
                         Inl e \<Rightarrow> exit_with 1 [Traceback e]
                       | Inr ms \<Rightarrow> exit_with 0 ms)
                    else
                      (case apply_filters P df a of
                         Inl e \<Rightarrow> exit_with 1 [Traceback e]
                       | Inr df_filtered \<Rightarrow>
                           if empty_df df_filtered then exit_with 0 [NoMatch]
                           else
                             (let (df_sorted, warnings) = apply_sorting P df_filtered a;
                                  (ms, written) = export env df_sorted a
                              in \<lparr>exit_code = 0, printed = warnings @ ms,
                                  files = written\<rparr>)))))"

section \<open>An instance of the library operations\<close>

text \<open>
  For closed examples the library operations are instantiated, as far as the examples
  need them. The instance reads numerals in plain decimal notation as numbers and nothing
  else (pandas reads more, an exponent for one); a string cell is its own text, a null is
  \<^verbatim>\<open>nan\<close> and a number the decimal digits of its whole part (pandas prints a float with
  its fraction); a pattern is looked for as it stands, ignoring case, which is what pandas
  does for a pattern without special characters; a cell that is not a string neither
  contains anything nor has an upper case (pandas raises on a column that holds no string
  at all); keys are sorted by insertion, numbers by size and strings by the codes of their
  characters, and a string cannot be compared with a number. The examples hold strings
  without special characters, numerals in plain notation and whole numbers only.
\<close>

definition is_digit :: "char \<Rightarrow> bool" where
  "is_digit c = (let n = (of_char c :: nat) in 48 \<le> n \<and> n \<le> 57)"

definition digits_value :: "string \<Rightarrow> nat" where
  "digits_value s = foldl (\<lambda>n c. 10 * n + (of_char c - 48)) 0 s"

definition unsigned_decimal :: "string \<Rightarrow> real option" where
  "unsigned_decimal s =
     (let whole_part = takeWhile is_digit s; rest = dropWhile is_digit s
      in if whole_part = [] then None
         else if rest = [] then Some (real (digits_value whole_part))
         else if hd rest = CHR ''.'' \<and> tl rest \<noteq> [] \<and> list_all is_digit (tl rest)
           then Some (real (digits_value whole_part)
                      + real (digits_value (tl rest)) / 10 ^ length (tl rest))
         else None)"

definition decimal :: "string \<Rightarrow> real option" where
  "decimal s =
     (case s of
        [] \<Rightarrow> None
      | c # t \<Rightarrow> if c = CHR ''-'' then map_option uminus (unsigned_decimal t)
                 else unsigned_decimal s)"

fun show_nat :: "nat \<Rightarrow> nat \<Rightarrow> string" where
  "show_nat 0 n = []"
| "show_nat (Suc fuel) n =
     (if n < 10 then [char_of (48 + n)]
      else show_nat fuel (n div 10) @ [char_of (48 + n mod 10)])"

definition str_of_cell :: "cell \<Rightarrow> string" where
  "str_of_cell x =
     (case x of
        NA \<Rightarrow> ''nan''
      | Str s \<Rightarrow> s
      | Num v \<Rightarrow> (if v < 0 then ''-'' else []) @ show_nat (Suc (nat \<lfloor>\<bar>v\<bar>\<rfloor>)) (nat \<lfloor>\<bar>v\<bar>\<rfloor>))"

fun str_le :: "string \<Rightarrow> string \<Rightarrow> bool" where
  "str_le [] t = True"
| "str_le (x # s) [] = False"
| "str_le (x # s) (y # t) = ((of_char x :: nat) < of_char y \<or> (x = y \<and> str_le s t))"

fun key_le :: "cell \<Rightarrow> cell \<Rightarrow> bool" where
  "key_le (Num v) (Num w) = (v \<le> w)"
| "key_le (Str s) (Str t) = str_le s t"
| "key_le x y = True"

fun insert_key :: "cell \<times> nat \<Rightarrow> (cell \<times> nat) list \<Rightarrow> (cell \<times> nat) list" where
  "insert_key x [] = [x]"
| "insert_key x (y # ys) =
     (if key_le (fst x) (fst y) then x # y # ys else y # insert_key x ys)"

definition is_str :: "cell \<Rightarrow> bool" where
  "is_str x = (case x of Str s \<Rightarrow> True | _ \<Rightarrow> False)"

definition is_num :: "cell \<Rightarrow> bool" where
  "is_num x = (case x of Num v \<Rightarrow> True | _ \<Rightarrow> False)"

definition insertion_argsort :: "cell list \<Rightarrow> error + nat list" where
  "insertion_argsort ks =
     (if list_ex is_str ks \<and> list_ex is_num ks then Inl TypeError
      else Inr (map snd (foldr insert_key (zip ks [0..<length ks]) [])))"

definition plain_pandas :: pandas where
  "plain_pandas =
     \<lparr>numeric_of_string = decimal,
      astype_str = map str_of_cell,
      str_contains = (\<lambda>pat xs.
         Inr (map (\<lambda>x. case x of Str s \<Rightarrow> sublist (lower pat) (lower s) | _ \<Rightarrow> False) xs)),
      str_upper = (\<lambda>xs. Inr (map (\<lambda>x. case x of Str s \<Rightarrow> Str (upper s) | _ \<Rightarrow> NA) xs)),
      argsort = insertion_argsort\<rparr>"

section \<open>Auxiliary notions and sample data\<close>

text \<open>A table that has the columns of another and a subsequence of its rows.\<close>

definition narrows :: "dataframe \<Rightarrow> dataframe \<Rightarrow> bool" where
  "narrows df' df = (subseq (rows df') (rows df) \<and> columns df' = columns df)"

text \<open>The two bounds of one community on one row.\<close>

definition bound_ok :: "args \<Rightarrow> string \<times> string \<Rightarrow> row \<Rightarrow> bool" where
  "bound_ok a kc r =
     ((case min_cutoff a (fst kc) of
         None \<Rightarrow> True
       | Some b \<Rightarrow> (case cell_of r (snd kc) of Num v \<Rightarrow> b \<le> v | _ \<Rightarrow> False)) \<and>
      (case max_cutoff a (fst kc) of
         None \<Rightarrow> True
       | Some b \<Rightarrow> (case cell_of r (snd kc) of Num v \<Rightarrow> v \<le> b | _ \<Rightarrow> False)))"

text \<open>
  A small normalized table for the examples: three colleges, the second without an OC
  cutoff; and a command line that asks for nothing but a CSV file.
\<close>

definition canonical_row :: "row \<Rightarrow> row" where
  "canonical_row r = map (\<lambda>c. (c, cell_of r c)) (map snd COLUMN_MAPPING)"

definition sample_table :: dataframe where
  "sample_table =
     \<lparr>columns = map snd COLUMN_MAPPING,
      rows = [canonical_row [(''College Code'', Str ''1''), (''OC Cutoff'', Num 200)],
              canonical_row [(''College Code'', Str ''2'')],
              canonical_row [(''College Code'', Str ''3''), (''OC Cutoff'', Num 150)]]\<rparr>"

definition no_args :: args where
  "no_args =
     \<lparr>year = 2024, output_file = Some ''out.csv'', format = Csv, list_colleges = False,
      list_branches = False, list_sortable_columns = False, filter_college_code = None,
      filter_college_name = None, filter_branch_code = None, filter_branch_name = None,
      min_cutoff = (\<lambda>k. None), max_cutoff = (\<lambda>k. None), sort_by = None, sort_order = Asc\<rparr>"

definition oc_between :: "real \<Rightarrow> real \<Rightarrow> args" where
  "oc_between lo hi =
     no_args\<lparr>min_cutoff := (\<lambda>k. if k = ''oc'' then Some lo else None),
             max_cutoff := (\<lambda>k. if k = ''oc'' then Some hi else None)\<rparr>"

text \<open>
  What numpy's \<^verbatim>\<open>argsort\<close> does on a numeric array: it returns. (It raises only when two
  elements of an object array cannot be compared.)
\<close>

definition sorts_numbers :: "pandas \<Rightarrow> bool" where
  "sorts_numbers P = (\<forall>ks. list_all is_num ks \<longrightarrow> (\<exists>ix. argsort P ks = Inr ix))"

text \<open>
  The run gets past \<^verbatim>\<open>parse_args\<close>, the listing of the sortable columns and the check of
  \<^verbatim>\<open>--output-file\<close>, and asks the API for the code of its year.
\<close>

definition api_code :: "args \<Rightarrow> string" where
  "api_code a = the (map_of YEAR_TO_API_CODE (year a))"

definition started :: "args \<Rightarrow> bool" where
  "started a =
     (year a \<in> set (map fst YEAR_TO_API_CODE) \<and> \<not> list_sortable_columns a \<and>
      (list_colleges a \<or> list_branches a \<or> truthy (output_file a)))"

text \<open>
  The run gets as far as the sort and the export, with \<open>df\<close> the table that is left after
  the filters.
\<close>

definition reaches_export :: "pandas \<Rightarrow> environment \<Rightarrow> args \<Rightarrow> dataframe \<Rightarrow> bool" where
  "reaches_export P env a df =
     (started a \<and> \<not> list_colleges a \<and> \<not> list_branches a \<and>
      (case fetch_tnea_data env (api_code a) of
         None \<Rightarrow> False
       | Some raw_data \<Rightarrow>
           raw_data \<noteq> [] \<and>
           (case process_data P raw_data of
              Inl e \<Rightarrow> False
            | Inr df0 \<Rightarrow>
                \<not> empty_df df0 \<and> apply_filters P df0 a = Inr df \<and> \<not> empty_df df)))"

text \<open>
  Sample data of a run: an answer of the API that normalizes to the sample table, a world
  without the renderer in which the API knows the year 2024 only and every writing of a
  file that is attempted goes through, and an answer whose college codes are a null, a
  number and a string. The sample table has nulls in its seat columns, so \<^verbatim>\<open>fillna\<close>
  raises on it and no writing is attempted.
\<close>

definition sample_raw :: "row list" where
  "sample_raw =
     [[(''coc'', Str ''1''), (''OC'', Num 200)],
      [(''coc'', Str ''2'')],
      [(''coc'', Str ''3''), (''OC'', Str ''150'')]]"

definition sample_env :: environment where
  "sample_env =
     \<lparr>fetch_tnea_data = (\<lambda>code. if code = ''1C'' then Some sample_raw else None),
      pisa = None,
      to_file = (\<lambda>f df name. True)\<rparr>"

text \<open>
  An answer of the API with one record that has every field of the mapping, the table it
  normalizes to, which has no null, and the world in which the API gives this answer.
\<close>

definition complete_raw :: "row list" where
  "complete_raw = [map (\<lambda>kv. (fst kv, Str ''7'')) COLUMN_MAPPING]"

definition complete_table :: dataframe where
  "complete_table =
     \<lparr>columns = map snd COLUMN_MAPPING,
      rows = [map (\<lambda>c. (c, if c \<in> set CUTOFF_COLUMNS \<or> c \<in> set seat_cols
                              then Num 7 else Str ''7''))
                (map snd COLUMN_MAPPING)]\<rparr>"

definition complete_env :: environment where
  "complete_env =
     \<lparr>fetch_tnea_data = (\<lambda>code. if code = ''1C'' then Some complete_raw else None),
      pisa = None,
      to_file = (\<lambda>f df name. True)\<rparr>"

definition mixed_raw :: "row list" where
  "mixed_raw = [[(''coc'', NA)], [(''coc'', Num 1)], [(''coc'', Str ''2'')]]"

definition mixed_table :: dataframe where
  "mixed_table =
     \<lparr>columns = map snd COLUMN_MAPPING,
      rows = [canonical_row [],
              canonical_row [(''College Code'', Num 1)],
              canonical_row [(''College Code'', Str ''2'')]]\<rparr>"

text \<open>
  The keys that \<^verbatim>\<open>sort_values\<close> hands to \<^verbatim>\<open>argsort\<close>, and what it returns when
  \<^verbatim>\<open>argsort\<close> returns: a permutation of the rows, with the null keys where asked.
\<close>

definition sort_items :: "string \<Rightarrow> bool \<Rightarrow> dataframe \<Rightarrow> row list" where
  "sort_items c ascending df =
     (if ascending then filter (\<lambda>r. cell_of r c \<noteq> NA) (rows df)
      else rev (filter (\<lambda>r. cell_of r c \<noteq> NA) (rows df)))"

definition sort_keys :: "string \<Rightarrow> bool \<Rightarrow> dataframe \<Rightarrow> cell list" where
  "sort_keys c ascending df = map (\<lambda>r. cell_of r c) (sort_items c ascending df)"

text \<open>
  A table described column by column: a label and the cell that the column has for a raw
  record. Every table that \<^verbatim>\<open>process_data\<close> goes through is of this form.
\<close>

definition frame :: "(string \<times> (row \<Rightarrow> cell)) list \<Rightarrow> row list \<Rightarrow> dataframe" where
  "frame sp raw =
     \<lparr>columns = map fst sp, rows = map (\<lambda>r. map (\<lambda>lg. (fst lg, snd lg r)) sp) raw\<rparr>"

definition convert_spec ::
    "(cell \<Rightarrow> cell) \<Rightarrow> (string \<times> (row \<Rightarrow> cell)) list \<Rightarrow> string
      \<Rightarrow> (string \<times> (row \<Rightarrow> cell)) list" where
  "convert_spec f sp c = map (\<lambda>lg. if fst lg = c then (c, \<lambda>r. f (snd lg r)) else lg) sp"

text \<open>
  The field names of the raw records, each once, at the place of its first occurrence when
  the records are read one after the other: of the occurrences of a name all but the first
  are dropped.
\<close>

definition raw_fields :: "row list \<Rightarrow> string list" where
  "raw_fields raw = rev (remdups (rev (concat (map (map fst) raw))))"

text \<open>
  The raw fields that the mapping does not cover: those that are neither the identifier
  \<^verbatim>\<open>_id\<close>, nor a field code of the mapping, nor one of its canonical names.
\<close>

definition extra_fields :: "row list \<Rightarrow> string list" where
  "extra_fields raw =
     filter (\<lambda>k. k \<noteq> ''_id'' \<and> k \<notin> set (map fst COLUMN_MAPPING) \<and>
                 k \<notin> set (map snd COLUMN_MAPPING))
       (raw_fields raw)"

text \<open>
  No two fields of the raw records get the same label: no record field bears the canonical
  name of a code that a record field bears too.
\<close>

definition no_clash :: "row list \<Rightarrow> bool" where
  "no_clash raw =
     distinct (map (renamed COLUMN_MAPPING) (filter (\<lambda>k. k \<noteq> ''_id'') (raw_fields raw)))"

text \<open>
  What holds of the description of every table on the way through \<^verbatim>\<open>process_data\<close>: a
  column whose label is not canonical holds the raw field of that name, and these columns
  are the extra fields, in their order.
\<close>

definition tidy :: "string list \<Rightarrow> (string \<times> (row \<Rightarrow> cell)) list \<Rightarrow> bool" where
  "tidy extras sp =
     ((\<forall>lg \<in> set sp. fst lg \<notin> set (map snd COLUMN_MAPPING) \<longrightarrow>
         snd lg = (\<lambda>r. cell_of r (fst lg))) \<and>
      filter (\<lambda>l. l \<notin> set (map snd COLUMN_MAPPING)) (map fst sp) = extras)"

text \<open>
  Columns of a described table that hold no string, and columns that hold no number that
  is not whole, for the raw records at hand.
\<close>

definition no_strings ::
    "string set \<Rightarrow> row list \<Rightarrow> (string \<times> (row \<Rightarrow> cell)) list \<Rightarrow> bool" where
  "no_strings C raw sp =
     (\<forall>lg \<in> set sp. fst lg \<in> C \<longrightarrow> (\<forall>r \<in> set raw. \<not> is_str (snd lg r)))"

definition whole_numbers ::
    "string set \<Rightarrow> row list \<Rightarrow> (string \<times> (row \<Rightarrow> cell)) list \<Rightarrow> bool" where
  "whole_numbers S raw sp =
     (\<forall>lg \<in> set sp. fst lg \<in> S \<longrightarrow> (\<forall>r \<in> set raw. whole (snd lg r)))"

text \<open>
  One more answer of the API with the table it normalizes to: two records with the
  identifier, a field under its code, a field under its canonical name and two fields that
  the mapping does not know, \<^verbatim>\<open>note\<close> in both records and \<^verbatim>\<open>zone\<close>, which the second
  record has before \<^verbatim>\<open>note\<close>.
\<close>

definition extra_raw :: "row list" where
  "extra_raw =
     [[(''_id'', Str ''a1''), (''coc'', Str ''1''), (''note'', Str ''x'')],
      [(''zone'', Str ''s''), (''note'', Str ''y''), (''OC Cutoff'', Str ''170''),
       (''coc'', Str ''2'')]]"

definition extra_table :: dataframe where
  "extra_table =
     \<lparr>columns = map snd COLUMN_MAPPING @ [''note'', ''zone''],
      rows = [canonical_row [(''College Code'', Str ''1'')]
                @ [(''note'', Str ''x''), (''zone'', NA)],
              canonical_row [(''College Code'', Str ''2''), (''OC Cutoff'', Num 170)]
                @ [(''note'', Str ''y''), (''zone'', Str ''s'')]]\<rparr>"

section \<open>Properties of \<^verbatim>\<open>apply_filters\<close>\<close>

lemma zip_keep_subseq: "subseq (map snd (filter fst (zip keep xs))) xs"
proof (induction xs arbitrary: keep)
  case Nil
  then show ?case by simp
next
  case (Cons x xs)
  show ?case
  proof (cases keep)
    case Nil
    then show ?thesis by simp
  next
    case (Cons k ks)
    with Cons.IH [of ks] show ?thesis by (cases k) auto
  qed
qed

lemma zip_map_keep: "map snd (filter fst (zip (map f xs) xs)) = filter f xs"
  by (induction xs) auto

lemma columns_select [simp]: "columns (select keep df) = columns df"
  by (simp add: select_def)

lemma select_column_test:
  "select (map f (column df c)) df = df\<lparr>rows := filter (\<lambda>r. f (cell_of r c)) (rows df)\<rparr>"
proof -
  have "map snd (filter fst (zip (map (\<lambda>r. f (cell_of r c)) (rows df)) (rows df)))
        = filter (\<lambda>r. f (cell_of r c)) (rows df)"
    by (rule zip_map_keep)
  then show ?thesis by (simp add: select_def column_def o_def)
qed

lemma narrows_refl [simp]: "narrows df df"
  by (simp add: narrows_def)

lemma narrows_trans: "narrows df2 df1 \<Longrightarrow> narrows df1 df \<Longrightarrow> narrows df2 df"
  by (auto simp: narrows_def intro: subseq_order.order_trans)

lemma narrows_select [simp]: "narrows (select keep df) df"
  by (simp add: narrows_def select_def zip_keep_subseq)

lemma college_code_filter_narrows:
  "college_code_filter P a df = Inr df' \<Longrightarrow> narrows df' df"
  by (auto simp: college_code_filter_def split: option.splits if_splits)

lemma name_filter_narrows: "name_filter P pat c df = Inr df' \<Longrightarrow> narrows df' df"
  by (auto simp: name_filter_def split: option.splits if_splits sum.splits)

lemma branch_code_filter_narrows:
  "branch_code_filter P a df = Inr df' \<Longrightarrow> narrows df' df"
  by (auto simp: branch_code_filter_def split: option.splits if_splits sum.splits)

lemma cell_ge_case: "cell_ge x b = (case x of Num v \<Rightarrow> b \<le> v | _ \<Rightarrow> False)"
  by (cases x) simp_all

lemma cell_le_case: "cell_le x b = (case x of Num v \<Rightarrow> v \<le> b | _ \<Rightarrow> False)"
  by (cases x) simp_all

text \<open>One round of the loop keeps the rows that meet the two bounds of its community.\<close>

lemma cutoff_filter_rows:
  "cutoff_filter a df kc = df\<lparr>rows := filter (bound_ok a kc) (rows df)\<rparr>"
  by (cases "min_cutoff a (fst kc)"; cases "max_cutoff a (fst kc)")
     (simp_all add: cutoff_filter_def select_column_test bound_ok_def [abs_def]
        cell_ge_case cell_le_case)

lemma cutoff_loop_rows:
  "foldl (cutoff_filter a) df kcs =
     df\<lparr>rows := filter (\<lambda>r. \<forall>kc \<in> set kcs. bound_ok a kc r) (rows df)\<rparr>"
proof (induction kcs arbitrary: df)
  case Nil
  then show ?case by simp
next
  case (Cons kc kcs)
  have "foldl (cutoff_filter a) df (kc # kcs) =
          foldl (cutoff_filter a) (cutoff_filter a df kc) kcs"
    by simp
  also have "\<dots> = (cutoff_filter a df kc)
      \<lparr>rows := filter (\<lambda>r. \<forall>kc \<in> set kcs. bound_ok a kc r) (rows (cutoff_filter a df kc))\<rparr>"
    by (rule Cons.IH)
  also have "\<dots> =
      df\<lparr>rows := filter (\<lambda>r. \<forall>kc \<in> set (kc # kcs). bound_ok a kc r) (rows df)\<rparr>"
    unfolding cutoff_filter_rows by (auto intro!: filter_cong)
  finally show ?case .
qed

lemma within_bounds_alt: "within_bounds a r = (\<forall>kc \<in> set COMMUNITY_COLUMNS. bound_ok a kc r)"
  by (simp add: within_bounds_def bound_ok_def)

lemma cutoff_loop_within:
  "foldl (cutoff_filter a) df COMMUNITY_COLUMNS =
     df\<lparr>rows := filter (within_bounds a) (rows df)\<rparr>"
  by (simp add: cutoff_loop_rows within_bounds_alt [abs_def])

lemma cutoff_loop_narrows: "narrows (foldl (cutoff_filter a) df kcs) df"
  by (simp add: cutoff_loop_rows narrows_def)

lemma and_then_Inr: "and_then m f = Inr y \<longleftrightarrow> (\<exists>x. m = Inr x \<and> f x = Inr y)"
  by (cases m) (auto simp: and_then_def)

lemma apply_filters_narrows:
  assumes "apply_filters P df a = Inr df'"
  shows "narrows df' df"
proof (cases "empty_df df")
  case True
  with assms show ?thesis by (simp add: apply_filters_def)
next
  case False
  with assms obtain d1 d2 d3 d4 where
    s1: "college_code_filter P a df = Inr d1" and
    s2: "name_filter P (filter_college_name a) ''College Name'' d1 = Inr d2" and
    s3: "branch_code_filter P a d2 = Inr d3" and
    s4: "name_filter P (filter_branch_name a) ''Branch Name'' d3 = Inr d4" and
    s5: "df' = foldl (cutoff_filter a) d4 COMMUNITY_COLUMNS"
    by (auto simp: apply_filters_def and_then_Inr)
  have "narrows d1 df" using s1 by (rule college_code_filter_narrows)
  moreover have "narrows d2 d1" using s2 by (rule name_filter_narrows)
  moreover have "narrows d3 d2" using s3 by (rule branch_code_filter_narrows)
  moreover have "narrows d4 d3" using s4 by (rule name_filter_narrows)
  moreover have "narrows df' d4" unfolding s5 by (rule cutoff_loop_narrows)
  ultimately show ?thesis by (blast intro: narrows_trans)
qed

lemma apply_filters_within:
  assumes "apply_filters P df a = Inr df'" and "columns df \<noteq> []"
  shows "\<forall>r \<in> set (rows df'). within_bounds a r"
proof (cases "empty_df df")
  case True
  with assms show ?thesis by (auto simp: apply_filters_def empty_df_def)
next
  case False
  with assms obtain d4 where "df' = foldl (cutoff_filter a) d4 COMMUNITY_COLUMNS"
    by (auto simp: apply_filters_def and_then_Inr)
  then show ?thesis by (simp add: cutoff_loop_within)
qed

lemma normalized_not_empty: "normalized df \<Longrightarrow> columns df \<noteq> []"
  by (auto simp: normalized_def COLUMN_MAPPING_def)

lemma string_filters_off:
  "\<not> truthy (filter_college_code a) \<Longrightarrow> college_code_filter P a df = Inr df"
  "\<not> truthy pat \<Longrightarrow> name_filter P pat c df = Inr df"
  "\<not> truthy (filter_branch_code a) \<Longrightarrow> branch_code_filter P a df = Inr df"
  by (auto simp: college_code_filter_def name_filter_def branch_code_filter_def
      split: option.splits)

lemma apply_filters_cutoffs_only:
  assumes "\<not> truthy (filter_college_code a)" and "\<not> truthy (filter_college_name a)"
    and "\<not> truthy (filter_branch_code a)" and "\<not> truthy (filter_branch_name a)"
    and "columns df \<noteq> [] \<or> rows df = []"
  shows "apply_filters P df a = Inr (df\<lparr>rows := filter (within_bounds a) (rows df)\<rparr>)"
proof (cases "rows df = []")
  case True
  then show ?thesis by (simp add: apply_filters_def empty_df_def)
next
  case False
  with assms(5) have "\<not> empty_df df" by (simp add: empty_df_def)
  with assms(1-4) show ?thesis
    by (simp add: apply_filters_def string_filters_off and_then_def cutoff_loop_within)
qed

lemma sample_table_normalized: "normalized sample_table"
  by code_simp

text \<open>
  Claim C1. On a normalized table, when only cutoff bounds are given, the filter keeps
  exactly the rows that, for every community, have a cutoff that is a number and lies
  within the bounds given for it, both ends included; and whatever else is asked, every row
  of the result does: a row with a null cutoff never passes a bound set on that cutoff.
\<close>

theorem cutoff_bounds_filter:
  assumes "normalized df"
  shows "(\<not> truthy (filter_college_code a) \<and> \<not> truthy (filter_college_name a) \<and>
          \<not> truthy (filter_branch_code a) \<and> \<not> truthy (filter_branch_name a) \<longrightarrow>
            apply_filters P df a = Inr (df\<lparr>rows := filter (within_bounds a) (rows df)\<rparr>)) \<and>
         (\<forall>df'. apply_filters P df a = Inr df' \<longrightarrow>
            (\<forall>r \<in> set (rows df'). within_bounds a r))"
  using assms apply_filters_cutoffs_only [where a = a and df = df and P = P]
    apply_filters_within [where a = a and df = df and P = P]
  by (auto dest: normalized_not_empty)

theorem cutoff_bounds_filter_witness:
  "normalized sample_table \<and>
   apply_filters plain_pandas sample_table (oc_between 150 180) =
     Inr (sample_table\<lparr>rows := [canonical_row [(''College Code'', Str ''3''),
                                                (''OC Cutoff'', Num 150)]]\<rparr>)"
proof -
  have off: "\<not> truthy (filter_college_code (oc_between 150 180)) \<and>
             \<not> truthy (filter_college_name (oc_between 150 180)) \<and>
             \<not> truthy (filter_branch_code (oc_between 150 180)) \<and>
             \<not> truthy (filter_branch_name (oc_between 150 180))"
    by (simp add: oc_between_def no_args_def)
  have kept: "filter (within_bounds (oc_between 150 180)) (rows sample_table) =
                [canonical_row [(''College Code'', Str ''3''), (''OC Cutoff'', Num 150)]]"
    by code_simp
  from cutoff_bounds_filter [OF sample_table_normalized, where a = "oc_between 150 180"
         and P = plain_pandas] off
  have "apply_filters plain_pandas sample_table (oc_between 150 180) =
          Inr (sample_table\<lparr>rows := filter (within_bounds (oc_between 150 180))
                                        (rows sample_table)\<rparr>)"
    by blast
  with kept sample_table_normalized show ?thesis by simp
qed

text \<open>
  Claim C4. Whenever the filter returns, its result has the columns of the table and a
  subsequence of its rows: only rows of the table, in their order. When no string filter
  is given (or only empty ones) and no bound is set, it returns the table as it is.
\<close>

theorem apply_filters_subsequence:
  "(\<forall>df'. apply_filters P df a = Inr df' \<longrightarrow>
      subseq (rows df') (rows df) \<and> columns df' = columns df) \<and>
   (\<not> truthy (filter_college_code a) \<and> \<not> truthy (filter_college_name a) \<and>
    \<not> truthy (filter_branch_code a) \<and> \<not> truthy (filter_branch_name a) \<and>
    (\<forall>kc \<in> set COMMUNITY_COLUMNS.
       min_cutoff a (fst kc) = None \<and> max_cutoff a (fst kc) = None) \<longrightarrow>
      apply_filters P df a = Inr df)"
proof (rule conjI)
  show "\<forall>df'. apply_filters P df a = Inr df' \<longrightarrow>
          subseq (rows df') (rows df) \<and> columns df' = columns df"
  proof (intro allI impI)
    fix df'
    assume "apply_filters P df a = Inr df'"
    then have "narrows df' df" by (rule apply_filters_narrows)
    then show "subseq (rows df') (rows df) \<and> columns df' = columns df"
      unfolding narrows_def .
  qed
next
  show "\<not> truthy (filter_college_code a) \<and> \<not> truthy (filter_college_name a) \<and>
    \<not> truthy (filter_branch_code a) \<and> \<not> truthy (filter_branch_name a) \<and>
    (\<forall>kc \<in> set COMMUNITY_COLUMNS.
       min_cutoff a (fst kc) = None \<and> max_cutoff a (fst kc) = None) \<longrightarrow>
      apply_filters P df a = Inr df"
  proof
  assume none: "\<not> truthy (filter_college_code a) \<and> \<not> truthy (filter_college_name a) \<and>
    \<not> truthy (filter_branch_code a) \<and> \<not> truthy (filter_branch_name a) \<and>
    (\<forall>kc \<in> set COMMUNITY_COLUMNS.
       min_cutoff a (fst kc) = None \<and> max_cutoff a (fst kc) = None)"
  then have all: "\<And>r. within_bounds a r"
    by (simp add: within_bounds_def)
  show "apply_filters P df a = Inr df"
  proof (cases "empty_df df")
    case True
    then show ?thesis by (simp add: apply_filters_def)
  next
    case False
    with none show ?thesis
      by (simp add: apply_filters_def string_filters_off and_then_def cutoff_loop_within all)
  qed
  qed
qed

theorem apply_filters_subsequence_witness:
  "apply_filters plain_pandas sample_table (no_args\<lparr>filter_college_code := Some ''3''\<rparr>) =
     Inr (sample_table\<lparr>rows := [canonical_row [(''College Code'', Str ''3''),
                                                (''OC Cutoff'', Num 150)]]\<rparr>) \<and>
   subseq [canonical_row [(''College Code'', Str ''3''), (''OC Cutoff'', Num 150)]]
     (rows sample_table) \<and>
   apply_filters plain_pandas sample_table no_args = Inr sample_table"
proof -
  have run: "apply_filters plain_pandas sample_table
               (no_args\<lparr>filter_college_code := Some ''3''\<rparr>) =
             Inr (sample_table\<lparr>rows := [canonical_row [(''College Code'', Str ''3''),
                                                        (''OC Cutoff'', Num 150)]]\<rparr>)"
    by code_simp
  have none: "\<not> truthy (filter_college_code no_args) \<and>
    \<not> truthy (filter_college_name no_args) \<and>
    \<not> truthy (filter_branch_code no_args) \<and> \<not> truthy (filter_branch_name no_args) \<and>
    (\<forall>kc \<in> set COMMUNITY_COLUMNS.
       min_cutoff no_args (fst kc) = None \<and> max_cutoff no_args (fst kc) = None)"
    by (simp add: no_args_def)
  have "\<forall>df'. apply_filters plain_pandas sample_table
                (no_args\<lparr>filter_college_code := Some ''3''\<rparr>) = Inr df' \<longrightarrow>
          subseq (rows df') (rows sample_table) \<and> columns df' = columns sample_table"
    by (rule conjunct1 [OF apply_filters_subsequence])
  with run have "subseq (rows (sample_table\<lparr>rows :=
      [canonical_row [(''College Code'', Str ''3''), (''OC Cutoff'', Num 150)]]\<rparr>))
          (rows sample_table)"
    by blast
  then have sub: "subseq [canonical_row [(''College Code'', Str ''3''), (''OC Cutoff'', Num 150)]]
          (rows sample_table)"
    by simp
  have same: "apply_filters plain_pandas sample_table no_args = Inr sample_table"
    by (rule mp [OF conjunct2 [OF apply_filters_subsequence] none])
  note sub same
  from run sub same show ?thesis by (intro conjI)
qed

text \<open>
  Claim C10. For each of the four string filters, the empty string has the effect of the
  filter not being given. A bound of zero is applied like any other: on a normalized table
  every row of the result has a cutoff that is a number on the right side of zero.
\<close>

theorem empty_string_filter_is_absent:
  "apply_filters P df (a\<lparr>filter_college_code := Some []\<rparr>) =
     apply_filters P df (a\<lparr>filter_college_code := None\<rparr>) \<and>
   apply_filters P df (a\<lparr>filter_college_name := Some []\<rparr>) =
     apply_filters P df (a\<lparr>filter_college_name := None\<rparr>) \<and>
   apply_filters P df (a\<lparr>filter_branch_code := Some []\<rparr>) =
     apply_filters P df (a\<lparr>filter_branch_code := None\<rparr>) \<and>
   apply_filters P df (a\<lparr>filter_branch_name := Some []\<rparr>) =
     apply_filters P df (a\<lparr>filter_branch_name := None\<rparr>) \<and>
   (normalized df \<longrightarrow>
      (\<forall>kc \<in> set COMMUNITY_COLUMNS. \<forall>df'. apply_filters P df a = Inr df' \<longrightarrow>
         (min_cutoff a (fst kc) = Some 0 \<longrightarrow>
            (\<forall>r \<in> set (rows df'). \<exists>v. cell_of r (snd kc) = Num v \<and> 0 \<le> v)) \<and>
         (max_cutoff a (fst kc) = Some 0 \<longrightarrow>
            (\<forall>r \<in> set (rows df'). \<exists>v. cell_of r (snd kc) = Num v \<and> v \<le> 0))))"
proof -
  have e1: "apply_filters P df (a\<lparr>filter_college_code := Some []\<rparr>) =
            apply_filters P df (a\<lparr>filter_college_code := None\<rparr>)"
    by (simp add: apply_filters_def college_code_filter_def name_filter_def
        branch_code_filter_def cutoff_filter_def [abs_def])
  have e2: "apply_filters P df (a\<lparr>filter_college_name := Some []\<rparr>) =
            apply_filters P df (a\<lparr>filter_college_name := None\<rparr>)"
    by (simp add: apply_filters_def college_code_filter_def name_filter_def
        branch_code_filter_def cutoff_filter_def [abs_def])
  have e3: "apply_filters P df (a\<lparr>filter_branch_code := Some []\<rparr>) =
            apply_filters P df (a\<lparr>filter_branch_code := None\<rparr>)"
    by (simp add: apply_filters_def college_code_filter_def name_filter_def
        branch_code_filter_def cutoff_filter_def [abs_def])
  have e4: "apply_filters P df (a\<lparr>filter_branch_name := Some []\<rparr>) =
            apply_filters P df (a\<lparr>filter_branch_name := None\<rparr>)"
    by (simp add: apply_filters_def college_code_filter_def name_filter_def
        branch_code_filter_def cutoff_filter_def [abs_def])
  have zero: "\<forall>kc \<in> set COMMUNITY_COLUMNS. \<forall>df'. apply_filters P df a = Inr df' \<longrightarrow>
         (min_cutoff a (fst kc) = Some 0 \<longrightarrow>
            (\<forall>r \<in> set (rows df'). \<exists>v. cell_of r (snd kc) = Num v \<and> 0 \<le> v)) \<and>
         (max_cutoff a (fst kc) = Some 0 \<longrightarrow>
            (\<forall>r \<in> set (rows df'). \<exists>v. cell_of r (snd kc) = Num v \<and> v \<le> 0))"
    if n: "normalized df"
  proof (intro ballI allI impI)
    fix kc df'
    assume kc: "kc \<in> set COMMUNITY_COLUMNS" and ok: "apply_filters P df a = Inr df'"
    from ok n have "\<forall>r \<in> set (rows df'). within_bounds a r"
      using apply_filters_within normalized_not_empty by blast
    with kc have b: "\<forall>r \<in> set (rows df'). bound_ok a kc r"
      by (simp add: within_bounds_alt)
    show "(min_cutoff a (fst kc) = Some 0 \<longrightarrow>
            (\<forall>r \<in> set (rows df'). \<exists>v. cell_of r (snd kc) = Num v \<and> 0 \<le> v)) \<and>
          (max_cutoff a (fst kc) = Some 0 \<longrightarrow>
            (\<forall>r \<in> set (rows df'). \<exists>v. cell_of r (snd kc) = Num v \<and> v \<le> 0))"
    proof (intro conjI impI ballI)
      fix r
      assume m: "min_cutoff a (fst kc) = Some 0" and "r \<in> set (rows df')"
      with b have "bound_ok a kc r" by blast
      with m show "\<exists>v. cell_of r (snd kc) = Num v \<and> 0 \<le> v"
        by (cases "cell_of r (snd kc)") (simp_all add: bound_ok_def)
    next
      fix r
      assume m: "max_cutoff a (fst kc) = Some 0" and "r \<in> set (rows df')"
      with b have "bound_ok a kc r" by blast
      with m show "\<exists>v. cell_of r (snd kc) = Num v \<and> v \<le> 0"
        by (cases "cell_of r (snd kc)") (simp_all add: bound_ok_def)
    qed
  qed
  from e1 e2 e3 e4 zero show ?thesis by blast
qed

theorem empty_string_filter_is_absent_witness:
  "normalized sample_table \<and>
   apply_filters plain_pandas sample_table (no_args\<lparr>filter_college_name := Some []\<rparr>) =
     Inr sample_table \<and>
   apply_filters plain_pandas sample_table
       (no_args\<lparr>min_cutoff := (\<lambda>k. if k = ''oc'' then Some 0 else None)\<rparr>) =
     Inr (sample_table\<lparr>rows := [canonical_row [(''College Code'', Str ''1''),
                                                (''OC Cutoff'', Num 200)],
                                 canonical_row [(''College Code'', Str ''3''),
                                                (''OC Cutoff'', Num 150)]]\<rparr>) \<and>
   (\<exists>v. cell_of (canonical_row [(''College Code'', Str ''1''), (''OC Cutoff'', Num 200)])
           ''OC Cutoff'' = Num v \<and> 0 \<le> v) \<and>
   (\<exists>v. cell_of (canonical_row [(''College Code'', Str ''3''), (''OC Cutoff'', Num 150)])
           ''OC Cutoff'' = Num v \<and> 0 \<le> v)"
proof -
  let ?a = "no_args\<lparr>min_cutoff := (\<lambda>k. if k = ''oc'' then Some 0 else None)\<rparr>"
  let ?kept = "[canonical_row [(''College Code'', Str ''1''), (''OC Cutoff'', Num 200)],
                canonical_row [(''College Code'', Str ''3''), (''OC Cutoff'', Num 150)]]"
  have absent: "apply_filters plain_pandas sample_table (no_args\<lparr>filter_college_name := None\<rparr>) =
                  Inr sample_table"
    by code_simp
  have run: "apply_filters plain_pandas sample_table ?a = Inr (sample_table\<lparr>rows := ?kept\<rparr>)"
    by code_simp
  have kc: "(''oc'', ''OC Cutoff'') \<in> set COMMUNITY_COLUMNS"
    by (simp add: COMMUNITY_COLUMNS_def)
  have m: "min_cutoff ?a (fst (''oc'', ''OC Cutoff'')) = Some 0"
    by simp
  note inst = empty_string_filter_is_absent [where P = plain_pandas and df = sample_table]
  from inst [where a = no_args] absent
  have first: "apply_filters plain_pandas sample_table
                 (no_args\<lparr>filter_college_name := Some []\<rparr>) = Inr sample_table"
    by simp
  from inst [where a = ?a] sample_table_normalized kc run m
  have "\<forall>r \<in> set (rows (sample_table\<lparr>rows := ?kept\<rparr>)).
          \<exists>v. cell_of r (snd (''oc'', ''OC Cutoff'')) = Num v \<and> 0 \<le> v"
    by blast
  then have
    "(\<exists>v. cell_of (canonical_row [(''College Code'', Str ''1''), (''OC Cutoff'', Num 200)])
            ''OC Cutoff'' = Num v \<and> 0 \<le> v) \<and>
     (\<exists>v. cell_of (canonical_row [(''College Code'', Str ''3''), (''OC Cutoff'', Num 150)])
            ''OC Cutoff'' = Num v \<and> 0 \<le> v)"
    by simp
  with first run sample_table_normalized show ?thesis by (intro conjI) simp_all
qed

section \<open>Properties of \<^verbatim>\<open>main\<close>\<close>

lemma supported_year_code:
  "year a \<in> set (map fst YEAR_TO_API_CODE) \<Longrightarrow> truthy (map_of YEAR_TO_API_CODE (year a))"
  by (auto simp: YEAR_TO_API_CODE_def)

lemma exit_with_code [simp]: "exit_code (exit_with n ms) = n"
  by (simp add: exit_with_def)

lemma main_fetch:
  assumes "started a"
  shows "main P env a =
    (case fetch_tnea_data env (api_code a) of
           None \<Rightarrow> exit_with 1 [FetchFailed (year a)]
         | Some raw_data \<Rightarrow>
             if raw_data = [] then exit_with 0 [NoDataFound (year a)]
             else
               (case process_data P raw_data of
                  Inl e \<Rightarrow> exit_with 1 [Traceback e]
                | Inr df \<Rightarrow>
                    if empty_df df then exit_with 0 [NoDataToProcess]
                    else if list_colleges a then
                      (case list_unique_values P df ''College Name'' ''Colleges'' of
                         Inl e \<Rightarrow> exit_with 1 [Traceback e]
                       | Inr ms \<Rightarrow> exit_with 0 ms)
                    else if list_branches a then
                      (case list_unique_values P df ''Branch Name'' ''Branches'' of
                         Inl e \<Rightarrow> exit_with 1 [Traceback e]
                       | Inr ms \<Rightarrow> exit_with 0 ms)
                    else
                      (case apply_filters P df a of
                         Inl e \<Rightarrow> exit_with 1 [Traceback e]
                       | Inr df_filtered \<Rightarrow>
                           if empty_df df_filtered then exit_with 0 [NoMatch]
                           else
                             (let (df_sorted, warnings) = apply_sorting P df_filtered a;
                                  (ms, written) = export env df_sorted a
                              in \<lparr>exit_code = 0, printed = warnings @ ms,
                                  files = written\<rparr>))))"
proof -
  from assms have y: "year a \<in> set (map fst YEAR_TO_API_CODE)"
    and l: "\<not> list_sortable_columns a"
    and o: "list_colleges a \<or> list_branches a \<or> truthy (output_file a)"
    by (simp_all add: started_def)
  from y have t: "truthy (map_of YEAR_TO_API_CODE (year a))"
    by (rule supported_year_code)
  have o': "\<not> (\<not> (list_colleges a \<or> list_branches a) \<and> \<not> truthy (output_file a))"
    using o by blast
  show ?thesis
    unfolding main_def api_code_def
    by (simp only: y l t o' not_True_eq_False not_False_eq_True if_True if_False)
qed

lemma main_export:
  assumes "reaches_export P env a df"
  shows "main P env a =
    \<lparr>exit_code = 0,
     printed = snd (apply_sorting P df a) @ fst (export env (fst (apply_sorting P df a)) a),
     files = snd (export env (fst (apply_sorting P df a)) a)\<rparr>"
proof -
  from assms have st: "started a" and nl: "\<not> list_colleges a" "\<not> list_branches a"
    by (simp_all add: reaches_export_def)
  from assms obtain raw_data df0 where
    f: "fetch_tnea_data env (api_code a) = Some raw_data" and r: "raw_data \<noteq> []" and
    p: "process_data P raw_data = Inr df0" and e: "\<not> empty_df df0" and
    ap: "apply_filters P df0 a = Inr df" and e': "\<not> empty_df df"
    by (auto simp: reaches_export_def split: option.splits sum.splits)
  show ?thesis
    by (simp add: main_fetch [OF st] f r p e nl ap e' split_def Let_def)
qed

lemma main_exit_code:
  assumes "started a"
  shows "exit_code (main P env a) =
    (case fetch_tnea_data env (api_code a) of
       None \<Rightarrow> 1
     | Some raw_data \<Rightarrow>
         if raw_data = [] then 0
         else
           (case process_data P raw_data of
              Inl e \<Rightarrow> 1
            | Inr df \<Rightarrow>
                if empty_df df then 0
                else if list_colleges a then
                  (case list_unique_values P df ''College Name'' ''Colleges'' of
                     Inl e \<Rightarrow> 1 | Inr ms \<Rightarrow> 0)
                else if list_branches a then
                  (case list_unique_values P df ''Branch Name'' ''Branches'' of
                     Inl e \<Rightarrow> 1 | Inr ms \<Rightarrow> 0)
                else (case apply_filters P df a of Inl e \<Rightarrow> 1 | Inr df_filtered \<Rightarrow> 0)))"
  unfolding main_fetch [OF assms]
  by (simp add: split_def Let_def split: option.splits sum.splits)

lemma main_rejects_year:
  "year a \<notin> set (map fst YEAR_TO_API_CODE) \<Longrightarrow> main P env a = exit_with 2 [ParserError]"
  by (simp add: main_def)

lemma main_lists_columns:
  "year a \<in> set (map fst YEAR_TO_API_CODE) \<Longrightarrow> list_sortable_columns a \<Longrightarrow>
     main P env a = exit_with 0 [SortableColumns]"
  by (simp add: main_def)

lemma main_not_started: "\<not> started a \<Longrightarrow> main P env a = main P env' a"
  by (auto simp: main_def started_def)

section \<open>Properties of \<^verbatim>\<open>apply_sorting\<close>: the column\<close>

lemma matches_own_key: "matches s (s, v)"
  by (simp add: matches_def)

text \<open>The last resort of the resolution, the look-up of the name among the keys, never decides.\<close>

lemma resolve_fallback_dead:
  assumes "find (matches s) COLUMN_MAPPING = None"
  shows "map_of COLUMN_MAPPING s = None"
proof (rule ccontr)
  assume "map_of COLUMN_MAPPING s \<noteq> None"
  then obtain v where "map_of COLUMN_MAPPING s = Some v" by blast
  then have "(s, v) \<in> set COLUMN_MAPPING" by (rule map_of_SomeD)
  with assms have "\<not> matches s (s, v)" by (auto simp: find_None_iff)
  then show False by (simp add: matches_own_key)
qed

lemma resolve_inexact:
  assumes "s \<notin> set (map snd COLUMN_MAPPING)"
  shows "resolve_sort_column s = map_option snd (find (matches s) COLUMN_MAPPING)"
  using assms resolve_fallback_dead [of s]
  by (cases "find (matches s) COLUMN_MAPPING") (simp_all add: resolve_sort_column_def)

lemma resolve_canonical:
  assumes "resolve_sort_column s = Some c"
  shows "c \<in> set (map snd COLUMN_MAPPING)"
proof (cases "s \<in> set (map snd COLUMN_MAPPING)")
  case True
  with assms show ?thesis by (simp add: resolve_sort_column_def)
next
  case False
  with assms obtain kv where "find (matches s) COLUMN_MAPPING = Some kv" and "c = snd kv"
    by (auto simp: resolve_inexact)
  then show ?thesis by (auto simp: find_Some_iff)
qed

lemma apply_sorting_unresolved:
  assumes "\<not> empty_df df" and "sort_by a = Some s" and "s \<noteq> []"
    and "resolve_sort_column s = None"
  shows "apply_sorting P df a = (df, [SortColumnNotFound s (columns df)])"
  using assms by (simp add: apply_sorting_def)

lemma canonical_not_empty: "c \<in> set (map snd COLUMN_MAPPING) \<Longrightarrow> c \<noteq> []"
  by (auto simp: COLUMN_MAPPING_def)

text \<open>The sort by a name that resolves is the call of \<^verbatim>\<open>sort_values\<close> on the resolved column.\<close>

lemma apply_sorting_by_column:
  assumes "\<not> empty_df df" and "sort_by a = Some s" and "s \<noteq> []"
    and c: "resolve_sort_column s = Some c"
  shows "apply_sorting P df a =
      (if c \<in> set (columns df)
       then (case sort_values P c (sort_order a = Asc)
                    (if c \<in> set CUTOFF_COLUMNS \<and> sort_order a \<noteq> Asc then First else Last)
                    df of
               Inl e \<Rightarrow> (df, [SortError c e])
             | Inr df' \<Rightarrow> (df', []))
       else (df, [SortColumnNotFound s (columns df)]))"
proof -
  from c have "c \<in> set (map snd COLUMN_MAPPING)" by (rule resolve_canonical)
  then have "c \<noteq> []" by (rule canonical_not_empty)
  with assms show ?thesis
    by (simp add: apply_sorting_def Let_def)
qed

text \<open>Case folding: the capital letters of ASCII are the only characters it changes.\<close>

lemma capital_letters: "map char_of [65 ..< 91 :: nat] = ''ABCDEFGHIJKLMNOPQRSTUVWXYZ''"
  by code_simp

lemma lower_char_other:
  assumes "c \<notin> set ''ABCDEFGHIJKLMNOPQRSTUVWXYZ''"
  shows "lower_char c = c"
proof (rule ccontr)
  assume "lower_char c \<noteq> c"
  then have "65 \<le> (of_char c :: nat) \<and> (of_char c :: nat) \<le> 90"
    by (simp add: lower_char_def Let_def split: if_splits)
  then have "(of_char c :: nat) \<in> set [65 ..< 91]"
    unfolding set_upt atLeastLessThan_iff by arith
  then have "char_of (of_char c :: nat) \<in> set (map char_of [65 ..< 91 :: nat])"
    by (simp only: set_map) (rule imageI)
  then have "c \<in> set ''ABCDEFGHIJKLMNOPQRSTUVWXYZ''"
    by (simp only: capital_letters char_of_char)
  with assms show False by contradiction
qed

text \<open>
  Claim C6. A name that is a canonical field name resolves to itself. Any other name
  resolves to the canonical name of the first entry of the mapping, in the order in which
  it is declared, whose canonical name or field code contains the name when case is
  ignored, and to nothing when there is no such entry. Case is ignored by comparing the
  two strings in lower case, which turns each of the capital letters \<^verbatim>\<open>A\<close> to \<^verbatim>\<open>Z\<close> into its
  small letter, keeps every other character and works character by character. The name
  that the resolution gives is the column that is sorted: when the table has it, the sort
  is \<^verbatim>\<open>sort_values\<close> on that column, and when the table lacks it the warning is the one of a
  name that resolves to nothing. When the name resolves to nothing, the sort returns the
  table as it is with a warning, and a run that got that far goes on to export the table
  and ends with status 0.
\<close>

theorem sort_column_resolution:
  "(lower ''ABCDEFGHIJKLMNOPQRSTUVWXYZ'' = ''abcdefghijklmnopqrstuvwxyz'' \<and>
    (\<forall>ch. ch \<notin> set ''ABCDEFGHIJKLMNOPQRSTUVWXYZ'' \<longrightarrow> lower [ch] = [ch]) \<and>
    lower (x @ y) = lower x @ lower y) \<and>
   (s \<in> set (map snd COLUMN_MAPPING) \<longrightarrow> resolve_sort_column s = Some s) \<and>
   (s \<notin> set (map snd COLUMN_MAPPING) \<longrightarrow>
      (\<forall>c. resolve_sort_column s = Some c \<longleftrightarrow>
         (\<exists>i < length COLUMN_MAPPING.
            (sublist (lower s) (lower (snd (COLUMN_MAPPING ! i))) \<or>
             sublist (lower s) (lower (fst (COLUMN_MAPPING ! i)))) \<and>
            (\<forall>j < i. \<not> (sublist (lower s) (lower (snd (COLUMN_MAPPING ! j))) \<or>
                        sublist (lower s) (lower (fst (COLUMN_MAPPING ! j))))) \<and>
            c = snd (COLUMN_MAPPING ! i))) \<and>
      (resolve_sort_column s = None \<longleftrightarrow>
         (\<forall>kv \<in> set COLUMN_MAPPING.
            \<not> (sublist (lower s) (lower (snd kv)) \<or> sublist (lower s) (lower (fst kv)))))) \<and>
   (\<not> empty_df df \<and> sort_by a = Some s \<and> s \<noteq> [] \<and> resolve_sort_column s = Some col \<longrightarrow>
      apply_sorting P df a =
        (if col \<in> set (columns df)
         then (case sort_values P col (sort_order a = Asc)
                      (if col \<in> set CUTOFF_COLUMNS \<and> sort_order a \<noteq> Asc then First else Last)
                      df of
                 Inl e \<Rightarrow> (df, [SortError col e])
               | Inr df' \<Rightarrow> (df', []))
         else (df, [SortColumnNotFound s (columns df)]))) \<and>
   (\<not> empty_df df \<and> sort_by a = Some s \<and> s \<noteq> [] \<and> resolve_sort_column s = None \<longrightarrow>
      apply_sorting P df a = (df, [SortColumnNotFound s (columns df)])) \<and>
   (reaches_export P env a df \<and> sort_by a = Some s \<and> s \<noteq> [] \<and>
    resolve_sort_column s = None \<longrightarrow>
      main P env a =
        \<lparr>exit_code = 0,
         printed = SortColumnNotFound s (columns df) # fst (export env df a),
         files = snd (export env df a)\<rparr>)"
proof (intro conjI impI allI)
  show "lower ''ABCDEFGHIJKLMNOPQRSTUVWXYZ'' = ''abcdefghijklmnopqrstuvwxyz''"
    by code_simp
next
  fix ch :: char
  assume "ch \<notin> set ''ABCDEFGHIJKLMNOPQRSTUVWXYZ''"
  then have "lower_char ch = ch" by (rule lower_char_other)
  then show "lower [ch] = [ch]" by (simp add: lower_def)
next
  show "lower (x @ y) = lower x @ lower y" by (simp add: lower_def)
next
  assume "\<not> empty_df df \<and> sort_by a = Some s \<and> s \<noteq> [] \<and> resolve_sort_column s = Some col"
  then have "\<not> empty_df df" and "sort_by a = Some s" and "s \<noteq> []"
    and "resolve_sort_column s = Some col"
    by simp_all
  then show "apply_sorting P df a =
        (if col \<in> set (columns df)
         then (case sort_values P col (sort_order a = Asc)
                      (if col \<in> set CUTOFF_COLUMNS \<and> sort_order a \<noteq> Asc then First else Last)
                      df of
                 Inl e \<Rightarrow> (df, [SortError col e])
               | Inr df' \<Rightarrow> (df', []))
         else (df, [SortColumnNotFound s (columns df)]))"
    by (rule apply_sorting_by_column)
next
  assume "s \<in> set (map snd COLUMN_MAPPING)"
  then show "resolve_sort_column s = Some s" by (simp add: resolve_sort_column_def)
next
  fix c
  assume "s \<notin> set (map snd COLUMN_MAPPING)"
  then have "resolve_sort_column s = Some c \<longleftrightarrow>
      (\<exists>kv. find (matches s) COLUMN_MAPPING = Some kv \<and> c = snd kv)"
    by (auto simp: resolve_inexact)
  also have "\<dots> \<longleftrightarrow> (\<exists>i < length COLUMN_MAPPING.
            matches s (COLUMN_MAPPING ! i) \<and> (\<forall>j < i. \<not> matches s (COLUMN_MAPPING ! j)) \<and>
            c = snd (COLUMN_MAPPING ! i))"
    unfolding find_Some_iff by blast
  finally show "resolve_sort_column s = Some c \<longleftrightarrow>
         (\<exists>i < length COLUMN_MAPPING.
            (sublist (lower s) (lower (snd (COLUMN_MAPPING ! i))) \<or>
             sublist (lower s) (lower (fst (COLUMN_MAPPING ! i)))) \<and>
            (\<forall>j < i. \<not> (sublist (lower s) (lower (snd (COLUMN_MAPPING ! j))) \<or>
                        sublist (lower s) (lower (fst (COLUMN_MAPPING ! j))))) \<and>
            c = snd (COLUMN_MAPPING ! i))"
    unfolding matches_def .
next
  assume "s \<notin> set (map snd COLUMN_MAPPING)"
  then have "resolve_sort_column s = None \<longleftrightarrow> find (matches s) COLUMN_MAPPING = None"
    by (simp add: resolve_inexact)
  also have "\<dots> \<longleftrightarrow> (\<forall>kv \<in> set COLUMN_MAPPING. \<not> matches s kv)"
    by (auto simp: find_None_iff)
  finally show "resolve_sort_column s = None \<longleftrightarrow>
         (\<forall>kv \<in> set COLUMN_MAPPING.
            \<not> (sublist (lower s) (lower (snd kv)) \<or> sublist (lower s) (lower (fst kv))))"
    unfolding matches_def .
next
  assume "\<not> empty_df df \<and> sort_by a = Some s \<and> s \<noteq> [] \<and> resolve_sort_column s = None"
  then show "apply_sorting P df a = (df, [SortColumnNotFound s (columns df)])"
    by (simp add: apply_sorting_unresolved)
next
  assume h: "reaches_export P env a df \<and> sort_by a = Some s \<and> s \<noteq> [] \<and>
    resolve_sort_column s = None"
  then have "\<not> empty_df df"
    by (auto simp: reaches_export_def split: option.splits sum.splits)
  with h have srt: "apply_sorting P df a = (df, [SortColumnNotFound s (columns df)])"
    by (simp add: apply_sorting_unresolved)
  from h have re: "reaches_export P env a df" by simp
  show "main P env a =
        \<lparr>exit_code = 0,
         printed = SortColumnNotFound s (columns df) # fst (export env df a),
         files = snd (export env df a)\<rparr>"
    unfolding main_export [OF re] srt by simp
qed

theorem sort_column_resolution_witness:
  "lower ''OC Cutoff'' = ''oc cutoff'' \<and>
   resolve_sort_column ''OC Cutoff'' = Some ''OC Cutoff'' \<and>
   resolve_sort_column ''oc'' = Some ''College Code'' \<and>
   resolve_sort_column ''OC'' = Some ''College Code'' \<and>
   resolve_sort_column ''SEATS'' = Some ''OC Total Seats'' \<and>
   resolve_sort_column ''college name'' = Some ''College Name'' \<and>
   resolve_sort_column ''rank'' = None \<and>
   apply_sorting plain_pandas sample_table (no_args\<lparr>sort_by := Some ''oc cutoff''\<rparr>) =
     (sample_table
        \<lparr>rows := [canonical_row [(''College Code'', Str ''3''), (''OC Cutoff'', Num 150)],
                  canonical_row [(''College Code'', Str ''1''), (''OC Cutoff'', Num 200)],
                  canonical_row [(''College Code'', Str ''2'')]]\<rparr>, []) \<and>
   main plain_pandas complete_env (no_args\<lparr>sort_by := Some ''rank''\<rparr>) =
     \<lparr>exit_code = 0,
      printed = [SortColumnNotFound ''rank'' (columns complete_table), Saved ''out.csv''],
      files = [(''out.csv'', Csv, complete_table)]\<rparr> \<and>
   main plain_pandas sample_env (no_args\<lparr>sort_by := Some ''rank''\<rparr>) =
     \<lparr>exit_code = 0,
      printed = [SortColumnNotFound ''rank'' (columns sample_table),
                 SaveError Csv ''out.csv''],
      files = []\<rparr>"
proof -
  let ?a = "no_args\<lparr>sort_by := Some ''rank''\<rparr>"
  let ?b = "no_args\<lparr>sort_by := Some ''oc cutoff''\<rparr>"
  let ?sorted = "sample_table
        \<lparr>rows := [canonical_row [(''College Code'', Str ''3''), (''OC Cutoff'', Num 150)],
                  canonical_row [(''College Code'', Str ''1''), (''OC Cutoff'', Num 200)],
                  canonical_row [(''College Code'', Str ''2'')]]\<rparr>"
  note res = sort_column_resolution
    [where P = plain_pandas and x = "''OC ''" and y = "''Cutoff''"]
  note fold = conjunct1 [OF res [where s = "''rank''" and a = ?a and env = sample_env
        and df = sample_table and col = "''rank''"]]
  have l: "lower ''OC Cutoff'' = ''oc cutoff''"
  proof -
    have "lower ''OC Cutoff'' = lower ''OC '' @ lower ''Cutoff''"
      using conjunct2 [OF conjunct2 [OF fold]] by simp
    also have "\<dots> = ''oc cutoff''" by code_simp
    finally show ?thesis .
  qed
  have exact: "''OC Cutoff'' \<in> set (map snd COLUMN_MAPPING)"
    by (simp add: COLUMN_MAPPING_def)
  have r1: "resolve_sort_column ''OC Cutoff'' = Some ''OC Cutoff''"
    by (rule mp [OF conjunct1 [OF conjunct2 [OF res [where s = "''OC Cutoff''" and a = ?a
        and env = sample_env and df = sample_table and col = "''rank''"]]] exact])
  have first: "\<exists>i < length COLUMN_MAPPING.
            (sublist (lower s) (lower (snd (COLUMN_MAPPING ! i))) \<or>
             sublist (lower s) (lower (fst (COLUMN_MAPPING ! i)))) \<and>
            (\<forall>j < i. \<not> (sublist (lower s) (lower (snd (COLUMN_MAPPING ! j))) \<or>
                        sublist (lower s) (lower (fst (COLUMN_MAPPING ! j))))) \<and>
            ''College Code'' = snd (COLUMN_MAPPING ! i)"
    if "sublist (lower s) (lower (snd (COLUMN_MAPPING ! 0))) \<or>
        sublist (lower s) (lower (fst (COLUMN_MAPPING ! 0)))" for s
  proof (intro exI [of _ 0] conjI)
    show "0 < length COLUMN_MAPPING" by (simp add: COLUMN_MAPPING_def)
    show "sublist (lower s) (lower (snd (COLUMN_MAPPING ! 0))) \<or>
          sublist (lower s) (lower (fst (COLUMN_MAPPING ! 0)))"
      by (rule that)
    show "''College Code'' = snd (COLUMN_MAPPING ! 0)" by (simp add: COLUMN_MAPPING_def)
  qed simp
  have inexact: "''oc'' \<notin> set (map snd COLUMN_MAPPING)"
    by (simp add: COLUMN_MAPPING_def)
  have m2: "sublist (lower ''oc'') (lower (snd (COLUMN_MAPPING ! 0))) \<or>
            sublist (lower ''oc'') (lower (fst (COLUMN_MAPPING ! 0)))"
    by code_simp
  note second = mp [OF conjunct1 [OF conjunct2 [OF conjunct2 [OF res [where s = "''oc''"
        and a = ?a and env = sample_env and df = sample_table and col = "''rank''"]]]] inexact]
  have r2: "resolve_sort_column ''oc'' = Some ''College Code''"
    using conjunct1 [OF second] first [OF m2] by blast
  have inexact': "''OC'' \<notin> set (map snd COLUMN_MAPPING)"
    by (simp add: COLUMN_MAPPING_def)
  have m3: "sublist (lower ''OC'') (lower (snd (COLUMN_MAPPING ! 0))) \<or>
            sublist (lower ''OC'') (lower (fst (COLUMN_MAPPING ! 0)))"
    by code_simp
  note third = mp [OF conjunct1 [OF conjunct2 [OF conjunct2 [OF res [where s = "''OC''"
        and a = ?a and env = sample_env and df = sample_table and col = "''rank''"]]]] inexact']
  have r3: "resolve_sort_column ''OC'' = Some ''College Code''"
    using conjunct1 [OF third] first [OF m3] by blast
  have r4: "resolve_sort_column ''SEATS'' = Some ''OC Total Seats''"
    by code_simp
  have r5: "resolve_sort_column ''college name'' = Some ''College Name''"
    by code_simp
  have none: "resolve_sort_column ''rank'' = None"
    by code_simp
  have r6: "resolve_sort_column ''oc cutoff'' = Some ''OC Cutoff''"
    by code_simp
  have ne: "\<not> empty_df sample_table"
    by code_simp
  have sb: "sort_by ?b = Some ''oc cutoff''" "''oc cutoff'' \<noteq> []"
    by simp_all
  have "apply_sorting plain_pandas sample_table ?b =
        (if ''OC Cutoff'' \<in> set (columns sample_table)
         then (case sort_values plain_pandas ''OC Cutoff'' (sort_order ?b = Asc)
                      (if ''OC Cutoff'' \<in> set CUTOFF_COLUMNS \<and> sort_order ?b \<noteq> Asc
                       then First else Last)
                      sample_table of
                 Inl e \<Rightarrow> (sample_table, [SortError ''OC Cutoff'' e])
               | Inr df' \<Rightarrow> (df', []))
         else (sample_table, [SortColumnNotFound ''oc cutoff'' (columns sample_table)]))"
    using conjunct1 [OF conjunct2 [OF conjunct2 [OF conjunct2 [OF res [where s = "''oc cutoff''"
        and a = ?b and env = sample_env and df = sample_table and col = "''OC Cutoff''"]]]]]
      ne sb r6
    by blast
  also have "\<dots> = (?sorted, [])"
    by code_simp
  finally have srt: "apply_sorting plain_pandas sample_table ?b = (?sorted, [])" .
  have s: "sort_by ?a = Some ''rank''" "''rank'' \<noteq> []"
    by simp_all
  have reach: "reaches_export plain_pandas sample_env ?a sample_table"
    by code_simp
  have "main plain_pandas sample_env ?a =
        \<lparr>exit_code = 0,
         printed = SortColumnNotFound ''rank'' (columns sample_table)
                     # fst (export sample_env sample_table ?a),
         files = snd (export sample_env sample_table ?a)\<rparr>"
    using conjunct2 [OF conjunct2 [OF conjunct2 [OF conjunct2 [OF conjunct2 [OF
        res [where s = "''rank''" and a = ?a and env = sample_env and df = sample_table
          and col = "''rank''"]]]]]]
      reach s none
    by blast
  moreover have "export sample_env sample_table ?a = ([SaveError Csv ''out.csv''], [])"
    by code_simp
  ultimately have run1: "main plain_pandas sample_env ?a =
     \<lparr>exit_code = 0,
      printed = [SortColumnNotFound ''rank'' (columns sample_table),
                 SaveError Csv ''out.csv''],
      files = []\<rparr>"
    by simp
  have reach': "reaches_export plain_pandas complete_env ?a complete_table"
    by code_simp
  have "main plain_pandas complete_env ?a =
        \<lparr>exit_code = 0,
         printed = SortColumnNotFound ''rank'' (columns complete_table)
                     # fst (export complete_env complete_table ?a),
         files = snd (export complete_env complete_table ?a)\<rparr>"
    using conjunct2 [OF conjunct2 [OF conjunct2 [OF conjunct2 [OF conjunct2 [OF
        res [where s = "''rank''" and a = ?a and env = complete_env and df = complete_table
          and col = "''rank''"]]]]]]
      reach' s none
    by blast
  moreover have "export complete_env complete_table ?a =
                   ([Saved ''out.csv''], [(''out.csv'', Csv, complete_table)])"
    by code_simp
  ultimately have run2: "main plain_pandas complete_env ?a =
     \<lparr>exit_code = 0,
      printed = [SortColumnNotFound ''rank'' (columns complete_table), Saved ''out.csv''],
      files = [(''out.csv'', Csv, complete_table)]\<rparr>"
    by simp
  from l r1 r2 r3 r4 r5 none srt run2 run1 show ?thesis by (intro conjI)
qed

text \<open>
  Claim C7, amended. A year outside the supported ones ends the run in the argument
  parser, with status 2. With a supported year: listing the sortable columns ends with
  status 0; a run that asks the API ends with status 1 when the request fails and with
  status 0 when the answer has no record; and when the answer normalizes, a listing that
  does not raise, a filter that returns (whether rows are left or not) and the export that
  follows end with status 0.
\<close>

theorem exit_codes:
  "(year a \<notin> set (map fst YEAR_TO_API_CODE) \<longrightarrow> exit_code (main P env a) = 2) \<and>
   (year a \<in> set (map fst YEAR_TO_API_CODE) \<and> list_sortable_columns a \<longrightarrow>
      exit_code (main P env a) = 0) \<and>
   (started a \<and> fetch_tnea_data env (api_code a) = None \<longrightarrow>
      exit_code (main P env a) = 1) \<and>
   (started a \<and> fetch_tnea_data env (api_code a) = Some [] \<longrightarrow>
      exit_code (main P env a) = 0) \<and>
   (\<forall>raw_data df.
      started a \<and> fetch_tnea_data env (api_code a) = Some raw_data \<and>
      process_data P raw_data = Inr df \<longrightarrow>
        (list_colleges a \<and>
         (\<exists>ms. list_unique_values P df ''College Name'' ''Colleges'' = Inr ms) \<longrightarrow>
           exit_code (main P env a) = 0) \<and>
        (\<not> list_colleges a \<and> list_branches a \<and>
         (\<exists>ms. list_unique_values P df ''Branch Name'' ''Branches'' = Inr ms) \<longrightarrow>
           exit_code (main P env a) = 0) \<and>
        (\<not> list_colleges a \<and> \<not> list_branches a \<and>
         (\<exists>df_filtered. apply_filters P df a = Inr df_filtered) \<longrightarrow>
           exit_code (main P env a) = 0))"
proof (intro conjI impI allI)
  assume "year a \<notin> set (map fst YEAR_TO_API_CODE)"
  then show "exit_code (main P env a) = 2" by (simp add: main_rejects_year)
next
  assume "year a \<in> set (map fst YEAR_TO_API_CODE) \<and> list_sortable_columns a"
  then show "exit_code (main P env a) = 0" by (simp add: main_lists_columns)
next
  assume "started a \<and> fetch_tnea_data env (api_code a) = None"
  then show "exit_code (main P env a) = 1" by (simp add: main_exit_code)
next
  assume "started a \<and> fetch_tnea_data env (api_code a) = Some []"
  then show "exit_code (main P env a) = 0" by (simp add: main_exit_code)
next
  fix raw_data df
  assume h: "started a \<and> fetch_tnea_data env (api_code a) = Some raw_data \<and>
      process_data P raw_data = Inr df"
    and l: "list_colleges a \<and>
         (\<exists>ms. list_unique_values P df ''College Name'' ''Colleges'' = Inr ms)"
  then show "exit_code (main P env a) = 0" by (auto simp: main_exit_code)
next
  fix raw_data df
  assume h: "started a \<and> fetch_tnea_data env (api_code a) = Some raw_data \<and>
      process_data P raw_data = Inr df"
    and l: "\<not> list_colleges a \<and> list_branches a \<and>
         (\<exists>ms. list_unique_values P df ''Branch Name'' ''Branches'' = Inr ms)"
  then show "exit_code (main P env a) = 0" by (auto simp: main_exit_code)
next
  fix raw_data df
  assume h: "started a \<and> fetch_tnea_data env (api_code a) = Some raw_data \<and>
      process_data P raw_data = Inr df"
    and l: "\<not> list_colleges a \<and> \<not> list_branches a \<and>
         (\<exists>df_filtered. apply_filters P df a = Inr df_filtered)"
  then show "exit_code (main P env a) = 0" by (auto simp: main_exit_code)
qed

theorem exit_codes_witness:
  "exit_code (main plain_pandas sample_env (no_args\<lparr>year := 2019\<rparr>)) = 2 \<and>
   exit_code (main plain_pandas sample_env (no_args\<lparr>year := 2023\<rparr>)) = 1 \<and>
   exit_code (main plain_pandas sample_env (no_args\<lparr>list_sortable_columns := True\<rparr>)) = 0 \<and>
   exit_code (main plain_pandas sample_env (oc_between 500 600)) = 0"
proof -
  note ec = exit_codes [where P = plain_pandas and env = sample_env]
  have y1: "year (no_args\<lparr>year := 2019\<rparr>) \<notin> set (map fst YEAR_TO_API_CODE)"
    by (simp add: YEAR_TO_API_CODE_def)
  have c1: "exit_code (main plain_pandas sample_env (no_args\<lparr>year := 2019\<rparr>)) = 2"
    by (rule mp [OF conjunct1 [OF ec] y1])
  have y2: "started (no_args\<lparr>year := 2023\<rparr>) \<and>
            fetch_tnea_data sample_env (api_code (no_args\<lparr>year := 2023\<rparr>)) = None"
    by (simp add: started_def api_code_def YEAR_TO_API_CODE_def no_args_def sample_env_def)
  have c2: "exit_code (main plain_pandas sample_env (no_args\<lparr>year := 2023\<rparr>)) = 1"
    by (rule mp [OF conjunct1 [OF conjunct2 [OF conjunct2 [OF ec]]] y2])
  have y3: "year (no_args\<lparr>list_sortable_columns := True\<rparr>) \<in> set (map fst YEAR_TO_API_CODE) \<and>
            list_sortable_columns (no_args\<lparr>list_sortable_columns := True\<rparr>)"
    by (simp add: YEAR_TO_API_CODE_def no_args_def)
  have c3: "exit_code (main plain_pandas sample_env
                         (no_args\<lparr>list_sortable_columns := True\<rparr>)) = 0"
    by (rule mp [OF conjunct1 [OF conjunct2 [OF ec]] y3])
  have y4: "started (oc_between 500 600) \<and>
            fetch_tnea_data sample_env (api_code (oc_between 500 600)) = Some sample_raw"
    by (simp add: started_def api_code_def YEAR_TO_API_CODE_def no_args_def sample_env_def
        oc_between_def)
  have p4: "process_data plain_pandas sample_raw = Inr sample_table"
    by code_simp
  have f4: "apply_filters plain_pandas sample_table (oc_between 500 600) =
              Inr (sample_table\<lparr>rows := []\<rparr>)"
    by code_simp
  have n4: "\<not> list_colleges (oc_between 500 600) \<and> \<not> list_branches (oc_between 500 600)"
    by (simp add: oc_between_def no_args_def)
  have c4: "exit_code (main plain_pandas sample_env (oc_between 500 600)) = 0"
    using conjunct2 [OF conjunct2 [OF conjunct2 [OF conjunct2 [OF ec]]]] y4 p4 f4 n4
    by blast
  from c1 c2 c3 c4 show ?thesis by (intro conjI)
qed

text \<open>
  Claim C7 as stated has an unsupported year end with status 1. The year 2019 is not
  supported, and the run ends with status 2.
\<close>

theorem invalid_year_counterexample:
  "year (no_args\<lparr>year := 2019\<rparr>) \<notin> set (map fst YEAR_TO_API_CODE) \<and>
   exit_code (main plain_pandas sample_env (no_args\<lparr>year := 2019\<rparr>)) \<noteq> 1"
  by (simp add: main_def YEAR_TO_API_CODE_def exit_with_def)

lemma export_without_pisa:
  "format a \<noteq> Pdf \<Longrightarrow> export (env\<lparr>pisa := None\<rparr>) df a = export env df a"
  by (cases "format a")
     (simp_all add: export_def save_to_excel_def save_to_csv_def cong: sum.case_cong)

lemma main_without_pisa:
  assumes "format a \<noteq> Pdf"
  shows "main P (env\<lparr>pisa := None\<rparr>) a = main P env a"
proof -
  have e: "\<And>df. export (env\<lparr>pisa := None\<rparr>) df a = export env df a"
    by (rule export_without_pisa [OF assms])
  have f: "fetch_tnea_data (env\<lparr>pisa := None\<rparr>) = fetch_tnea_data env"
    by simp
  show ?thesis unfolding main_def e f by (rule refl)
qed

lemma exit_code_without_pisa:
  "exit_code (main P (env\<lparr>pisa := None\<rparr>) a) = exit_code (main P env a)"
proof (cases "started a")
  case True
  have f: "fetch_tnea_data (env\<lparr>pisa := None\<rparr>) = fetch_tnea_data env"
    by simp
  show ?thesis unfolding main_exit_code [OF True] f by (rule refl)
next
  case False
  then have "main P (env\<lparr>pisa := None\<rparr>) a = main P env a"
    by (rule main_not_started)
  then show ?thesis by (rule arg_cong)
qed

text \<open>
  Claim C9. Without the renderer, \<^verbatim>\<open>save_to_pdf\<close> prints that the export is unavailable
  and writes nothing; a run that gets to the export of a PDF prints that the export is
  skipped, writes no file and ends with status 0. A run that does not ask for a PDF is the
  same with and without the renderer, and no run has another exit status for its absence.
\<close>

theorem pdf_renderer_absent:
  "(pisa env = None \<longrightarrow> save_to_pdf env df filename = ([PdfUnavailable], [])) \<and>
   (pisa env = None \<and> format a = Pdf \<and> reaches_export P env a df \<longrightarrow>
      main P env a =
        \<lparr>exit_code = 0,
         printed = snd (apply_sorting P df a) @ [PdfSkipped, PdfAdvice],
         files = []\<rparr>) \<and>
   (format a \<noteq> Pdf \<longrightarrow> main P (env\<lparr>pisa := None\<rparr>) a = main P env a) \<and>
   exit_code (main P (env\<lparr>pisa := None\<rparr>) a) = exit_code (main P env a)"
proof (intro conjI impI)
  assume "pisa env = None"
  then show "save_to_pdf env df filename = ([PdfUnavailable], [])"
    by (simp add: save_to_pdf_def)
next
  assume h: "pisa env = None \<and> format a = Pdf \<and> reaches_export P env a df"
  then have re: "reaches_export P env a df" by simp
  then have "truthy (output_file a)"
    by (auto simp: reaches_export_def started_def)
  with h have "export env (fst (apply_sorting P df a)) a = ([PdfSkipped, PdfAdvice], [])"
    by (simp add: export_def)
  then show "main P env a =
        \<lparr>exit_code = 0,
         printed = snd (apply_sorting P df a) @ [PdfSkipped, PdfAdvice],
         files = []\<rparr>"
    unfolding main_export [OF re] by simp
next
  assume "format a \<noteq> Pdf"
  then show "main P (env\<lparr>pisa := None\<rparr>) a = main P env a"
    by (rule main_without_pisa)
next
  show "exit_code (main P (env\<lparr>pisa := None\<rparr>) a) = exit_code (main P env a)"
    by (rule exit_code_without_pisa)
qed

theorem pdf_renderer_absent_witness:
  "pisa sample_env = None \<and>
   main plain_pandas sample_env (no_args\<lparr>format := Pdf\<rparr>) =
     \<lparr>exit_code = 0, printed = [PdfSkipped, PdfAdvice], files = []\<rparr> \<and>
   main plain_pandas (sample_env\<lparr>pisa := None\<rparr>) no_args = main plain_pandas sample_env no_args"
proof -
  let ?a = "no_args\<lparr>format := Pdf\<rparr>"
  note ab = pdf_renderer_absent [where P = plain_pandas and env = sample_env]
  have p: "pisa sample_env = None" by (simp add: sample_env_def)
  have re: "reaches_export plain_pandas sample_env ?a sample_table"
    by code_simp
  have st: "snd (apply_sorting plain_pandas sample_table ?a) = []"
    by (simp add: apply_sorting_def no_args_def)
  have "main plain_pandas sample_env ?a =
        \<lparr>exit_code = 0,
         printed = snd (apply_sorting plain_pandas sample_table ?a) @ [PdfSkipped, PdfAdvice],
         files = []\<rparr>"
    using conjunct1 [OF conjunct2 [OF ab [where a = ?a and df = sample_table]]] p re
    by simp
  then have m: "main plain_pandas sample_env ?a =
        \<lparr>exit_code = 0, printed = [PdfSkipped, PdfAdvice], files = []\<rparr>"
    by (simp add: st)
  have f: "format no_args \<noteq> Pdf" by (simp add: no_args_def)
  have e: "main plain_pandas (sample_env\<lparr>pisa := None\<rparr>) no_args =
           main plain_pandas sample_env no_args"
    by (rule mp [OF conjunct1 [OF conjunct2 [OF conjunct2 [OF ab]]] f])
  from p m e show ?thesis by (intro conjI)
qed

section \<open>Properties of \<^verbatim>\<open>apply_sorting\<close>: the order\<close>

lemma distinct_count_list: "distinct xs \<Longrightarrow> x \<in> set xs \<Longrightarrow> count_list xs x = 1"
  by (induction xs) auto

text \<open>Taking the elements of a list at a permutation of its positions permutes the list.\<close>

lemma mset_take_positions:
  assumes "mset ix = mset [0..<length xs]"
  shows "mset (map (\<lambda>i. xs ! i) ix) = mset xs"
proof -
  have "mset (map (\<lambda>i. xs ! i) ix) = image_mset (\<lambda>i. xs ! i) (mset ix)"
    by simp
  also have "\<dots> = image_mset (\<lambda>i. xs ! i) (mset [0..<length xs])"
    by (simp only: assms)
  also have "\<dots> = mset (map (\<lambda>i. xs ! i) [0..<length xs])"
    by simp
  also have "\<dots> = mset xs"
    by (simp only: map_nth)
  finally show ?thesis .
qed

lemma nulls_last_append:
  assumes "\<forall>r \<in> set xs. cell_of r c \<noteq> NA" and "\<forall>r \<in> set ys. cell_of r c = NA"
  shows "nulls_last c (xs @ ys)"
proof -
  have "filter (\<lambda>r. cell_of r c \<noteq> NA) xs = xs" "filter (\<lambda>r. cell_of r c = NA) xs = []"
    "filter (\<lambda>r. cell_of r c \<noteq> NA) ys = []" "filter (\<lambda>r. cell_of r c = NA) ys = ys"
    using assms by (simp_all add: filter_id_conv filter_empty_conv)
  then show ?thesis by (simp add: nulls_last_def)
qed

lemma nulls_first_append:
  assumes "\<forall>r \<in> set xs. cell_of r c \<noteq> NA" and "\<forall>r \<in> set ys. cell_of r c = NA"
  shows "nulls_first c (ys @ xs)"
proof -
  have "filter (\<lambda>r. cell_of r c \<noteq> NA) xs = xs" "filter (\<lambda>r. cell_of r c = NA) xs = []"
    "filter (\<lambda>r. cell_of r c \<noteq> NA) ys = []" "filter (\<lambda>r. cell_of r c = NA) ys = ys"
    using assms by (simp_all add: filter_id_conv filter_empty_conv)
  then show ?thesis by (simp add: nulls_first_def)
qed

lemma sort_values_cases:
  assumes "c \<in> set (columns df)" and "count_list (columns df) c = 1"
  shows "sort_values P c ascending na_pos df =
    (case argsort P (sort_keys c ascending df) of
       Inl e \<Rightarrow> Inl e
     | Inr indexer \<Rightarrow>
         Inr (df\<lparr>rows :=
           (case na_pos of
              Last \<Rightarrow>
                (if ascending then map (\<lambda>i. sort_items c ascending df ! i) indexer
                 else rev (map (\<lambda>i. sort_items c ascending df ! i) indexer)) @
                filter (\<lambda>r. cell_of r c = NA) (rows df)
            | First \<Rightarrow>
                filter (\<lambda>r. cell_of r c = NA) (rows df) @
                (if ascending then map (\<lambda>i. sort_items c ascending df ! i) indexer
                 else rev (map (\<lambda>i. sort_items c ascending df ! i) indexer)))\<rparr>))"
  unfolding sort_values_def sort_keys_def sort_items_def Let_def using assms
  by (cases ascending) (simp_all cong: sum.case_cong)

lemma sort_values_result:
  assumes perm: "permuting P" and ok: "sort_values P c ascending na_pos df = Inr df'"
    and c: "c \<in> set (columns df)" "count_list (columns df) c = 1"
  shows "mset (rows df') = mset (rows df) \<and> columns df' = columns df \<and>
         (na_pos = Last \<longrightarrow> nulls_last c (rows df')) \<and>
         (na_pos = First \<longrightarrow> nulls_first c (rows df'))"
proof -
  define items where "items = sort_items c ascending df"
  define nans where "nans = filter (\<lambda>r. cell_of r c = NA) (rows df)"
  from ok obtain indexer where ix: "argsort P (map (\<lambda>r. cell_of r c) items) = Inr indexer"
    and res0: "df' = df\<lparr>rows :=
           (case na_pos of
              Last \<Rightarrow>
                (if ascending then map (\<lambda>i. items ! i) indexer
                 else rev (map (\<lambda>i. items ! i) indexer)) @ nans
            | First \<Rightarrow>
                nans @
                (if ascending then map (\<lambda>i. items ! i) indexer
                 else rev (map (\<lambda>i. items ! i) indexer)))\<rparr>"
    unfolding sort_values_cases [OF c] sort_keys_def items_def nans_def
    by (auto split: sum.splits)
  define taken where "taken = map (\<lambda>i. items ! i) indexer"
  define ordered where "ordered = (if ascending then taken else rev taken)"
  from perm ix have "mset indexer = mset [0..<length items]"
    by (auto simp: permuting_def)
  then have "mset taken = mset items"
    unfolding taken_def by (rule mset_take_positions)
  then have mo: "mset ordered = mset items"
    by (simp add: ordered_def)
  have mi: "mset items = mset (filter (\<lambda>r. cell_of r c \<noteq> NA) (rows df))"
    by (simp add: items_def sort_items_def)
  from mo mi have so: "set ordered = set (filter (\<lambda>r. cell_of r c \<noteq> NA) (rows df))"
    by (metis set_mset_mset)
  have nn: "\<forall>r \<in> set ordered. cell_of r c \<noteq> NA"
    using so by simp
  have na: "\<forall>r \<in> set nans. cell_of r c = NA"
    by (simp add: nans_def)
  have res: "df' = df\<lparr>rows := (case na_pos of Last \<Rightarrow> ordered @ nans
                                | First \<Rightarrow> nans @ ordered)\<rparr>"
    using res0 unfolding ordered_def taken_def .
  have all: "mset (ordered @ nans) = mset (rows df)"
  proof -
    have "mset (ordered @ nans) =
          mset (filter (\<lambda>r. cell_of r c \<noteq> NA) (rows df)) +
          mset (filter (\<lambda>r. \<not> cell_of r c \<noteq> NA) (rows df))"
      by (simp add: mo mi nans_def)
    also have "\<dots> = mset (rows df)"
      by (simp only: mset_filter multiset_partition [symmetric])
    finally show ?thesis .
  qed
  show ?thesis
  proof (cases na_pos)
    case First
    with res have "rows df' = nans @ ordered" by simp
    with all nn na res First show ?thesis
      by (simp add: nulls_first_append add.commute)
  next
    case Last
    with res have "rows df' = ordered @ nans" by simp
    with all nn na res Last show ?thesis
      by (simp add: nulls_last_append)
  qed
qed

text \<open>On a normalized table the sort by a resolved name is the call of \<^verbatim>\<open>sort_values\<close>.\<close>

lemma apply_sorting_resolved:
  assumes n: "normalized df" and r: "rows df \<noteq> []" and s: "sort_by a = Some s" "s \<noteq> []"
    and c: "resolve_sort_column s = Some c"
  shows "c \<in> set (columns df)" and "count_list (columns df) c = 1"
    and "apply_sorting P df a =
      (case sort_values P c (sort_order a = Asc)
              (if c \<in> set CUTOFF_COLUMNS \<and> sort_order a \<noteq> Asc then First else Last) df of
         Inl e \<Rightarrow> (df, [SortError c e])
       | Inr df' \<Rightarrow> (df', []))"
proof -
  from c have can: "c \<in> set (map snd COLUMN_MAPPING)" by (rule resolve_canonical)
  with n show in_cols: "c \<in> set (columns df)" by (auto simp: normalized_def)
  with n show "count_list (columns df) c = 1"
    by (simp add: normalized_def distinct_count_list)
  from can have ne: "c \<noteq> []" by (rule canonical_not_empty)
  from n r have "\<not> empty_df df" by (simp add: empty_df_def normalized_not_empty)
  with s c ne in_cols show "apply_sorting P df a =
      (case sort_values P c (sort_order a = Asc)
              (if c \<in> set CUTOFF_COLUMNS \<and> sort_order a \<noteq> Asc then First else Last) df of
         Inl e \<Rightarrow> (df, [SortError c e])
       | Inr df' \<Rightarrow> (df', []))"
    by (simp add: apply_sorting_def Let_def)
qed

text \<open>The keys of a cutoff column of a normalized table that are not null are numbers.\<close>

lemma cutoff_keys_numbers:
  assumes "normalized df" and "c \<in> set CUTOFF_COLUMNS"
  shows "list_all is_num (sort_keys c ascending df)"
proof -
  have "is_num (cell_of r c)" if "r \<in> set (rows df)" and "cell_of r c \<noteq> NA" for r
  proof -
    from assms that(1) have "case cell_of r c of Str s \<Rightarrow> False | _ \<Rightarrow> True"
      by (simp add: normalized_def)
    with that(2) show ?thesis by (cases "cell_of r c") (simp_all add: is_num_def)
  qed
  then show ?thesis
    by (auto simp: sort_keys_def sort_items_def list_all_iff)
qed

lemma cutoff_sort_returns:
  assumes "sorts_numbers P" and "normalized df" and "c \<in> set CUTOFF_COLUMNS"
    and "c \<in> set (columns df)" and "count_list (columns df) c = 1"
  shows "\<exists>df'. sort_values P c ascending na_pos df = Inr df'"
proof -
  from assms(1) cutoff_keys_numbers [OF assms(2,3)]
  obtain ix where "argsort P (sort_keys c ascending df) = Inr ix"
    unfolding sorts_numbers_def by blast
  then show ?thesis
    unfolding sort_values_cases [OF assms(4,5)] by simp
qed

subsection \<open>The instance of the library operations\<close>

lemma mset_insert_key: "mset (insert_key x ys) = add_mset x (mset ys)"
  by (induction ys) auto

lemma mset_foldr_insert_key: "mset (foldr insert_key xs []) = mset xs"
  by (induction xs) (auto simp: mset_insert_key)

lemma plain_pandas_permuting: "permuting plain_pandas"
proof -
  have "mset (map snd (foldr insert_key (zip ks [0..<length ks]) [])) = mset [0..<length ks]"
    for ks :: "cell list"
  proof -
    have z: "map snd (zip ks [0..<length ks]) = [0..<length ks]"
      by (rule map_snd_zip) simp
    have "mset (map snd (foldr insert_key (zip ks [0..<length ks]) [])) =
          image_mset snd (mset (foldr insert_key (zip ks [0..<length ks]) []))"
      by (simp only: mset_map)
    also have "\<dots> = image_mset snd (mset (zip ks [0..<length ks]))"
      by (simp only: mset_foldr_insert_key)
    also have "\<dots> = mset (map snd (zip ks [0..<length ks]))"
      by (simp only: mset_map)
    also have "\<dots> = mset [0..<length ks]"
      by (simp only: z)
    finally show ?thesis .
  qed
  then show ?thesis
    by (auto simp: permuting_def plain_pandas_def insertion_argsort_def split: if_splits)
qed

lemma plain_pandas_sorts_numbers: "sorts_numbers plain_pandas"
proof -
  have "\<not> list_ex is_str ks" if "list_all is_num ks" for ks
    using that by (auto simp: list_all_iff list_ex_iff is_num_def is_str_def split: cell.splits)
  then show ?thesis
    by (simp add: sorts_numbers_def plain_pandas_def insertion_argsort_def)
qed

lemma mixed_table_normalized: "normalized mixed_table"
  by code_simp

text \<open>
  Claim C2, amended. On a normalized table with at least one row, when the name given
  resolves to a column \<open>c\<close>: if \<open>c\<close> is a cutoff column the sort succeeds and returns a
  permutation of the rows in which the rows with a null cutoff come after all others for an
  ascending sort and before all others for a descending one. If \<open>c\<close> is another column
  and the sort succeeds, it returns a permutation of the rows with the null keys last, in
  either direction; if it fails (the keys cannot be compared), the table is returned as it
  was, with an error message.
\<close>

theorem null_placement:
  assumes "permuting P" and "sorts_numbers P" and "normalized df" and "rows df \<noteq> []"
    and "sort_by a = Some s" and "s \<noteq> []" and "resolve_sort_column s = Some c"
  shows "(c \<in> set CUTOFF_COLUMNS \<longrightarrow>
            snd (apply_sorting P df a) = [] \<and>
            mset (rows (fst (apply_sorting P df a))) = mset (rows df) \<and>
            (sort_order a = Asc \<longrightarrow> nulls_last c (rows (fst (apply_sorting P df a)))) \<and>
            (sort_order a = Desc \<longrightarrow> nulls_first c (rows (fst (apply_sorting P df a))))) \<and>
         (c \<notin> set CUTOFF_COLUMNS \<longrightarrow>
            (snd (apply_sorting P df a) = [] \<longrightarrow>
               mset (rows (fst (apply_sorting P df a))) = mset (rows df) \<and>
               nulls_last c (rows (fst (apply_sorting P df a)))) \<and>
            (snd (apply_sorting P df a) \<noteq> [] \<longrightarrow>
               (\<exists>e. apply_sorting P df a = (df, [SortError c e]))))"
proof -
  note res = apply_sorting_resolved [OF assms(3-7)]
  show ?thesis
  proof (intro conjI impI)
    assume cut: "c \<in> set CUTOFF_COLUMNS"
    let ?pos = "if sort_order a \<noteq> Asc then First else Last"
    from cutoff_sort_returns [OF assms(2,3) cut res(1,2)]
    obtain df' where sv: "sort_values P c (sort_order a = Asc) ?pos df = Inr df'"
      by blast
    with res(3) cut have ap: "apply_sorting P df a = (df', [])" by simp
    note r = sort_values_result [OF assms(1) sv res(1,2)]
    from ap show "snd (apply_sorting P df a) = []" by simp
    from ap r show "mset (rows (fst (apply_sorting P df a))) = mset (rows df)" by simp
    {
      assume "sort_order a = Asc"
      with ap r show "nulls_last c (rows (fst (apply_sorting P df a)))" by simp
    }
    {
      assume "sort_order a = Desc"
      with ap r show "nulls_first c (rows (fst (apply_sorting P df a)))" by simp
    }
  next
    assume other: "c \<notin> set CUTOFF_COLUMNS" and ok: "snd (apply_sorting P df a) = []"
    with res(3) obtain df' where sv: "sort_values P c (sort_order a = Asc) Last df = Inr df'"
      and ap: "apply_sorting P df a = (df', [])"
      by (cases "sort_values P c (sort_order a = Asc) Last df") auto
    note r = sort_values_result [OF assms(1) sv res(1,2)]
    from ap r show "mset (rows (fst (apply_sorting P df a))) = mset (rows df)" by simp
    from ap r show "nulls_last c (rows (fst (apply_sorting P df a)))" by simp
  next
    assume other: "c \<notin> set CUTOFF_COLUMNS" and bad: "snd (apply_sorting P df a) \<noteq> []"
    with res(3) show "\<exists>e. apply_sorting P df a = (df, [SortError c e])"
      by (cases "sort_values P c (sort_order a = Asc) Last df") auto
  qed
qed

theorem null_placement_witness:
  "map (\<lambda>r. cell_of r ''OC Cutoff'')
     (rows (fst (apply_sorting plain_pandas sample_table
        (no_args\<lparr>sort_by := Some ''OC Cutoff''\<rparr>)))) = [Num 150, Num 200, NA] \<and>
   nulls_last ''OC Cutoff''
     (rows (fst (apply_sorting plain_pandas sample_table
        (no_args\<lparr>sort_by := Some ''OC Cutoff''\<rparr>)))) \<and>
   map (\<lambda>r. cell_of r ''OC Cutoff'')
     (rows (fst (apply_sorting plain_pandas sample_table
        (no_args\<lparr>sort_by := Some ''OC Cutoff'', sort_order := Desc\<rparr>)))) =
     [NA, Num 200, Num 150] \<and>
   nulls_first ''OC Cutoff''
     (rows (fst (apply_sorting plain_pandas sample_table
        (no_args\<lparr>sort_by := Some ''OC Cutoff'', sort_order := Desc\<rparr>)))) \<and>
   (\<exists>e. apply_sorting plain_pandas mixed_table (no_args\<lparr>sort_by := Some ''College Code''\<rparr>) =
          (mixed_table, [SortError ''College Code'' e]))"
proof -
  let ?asc = "no_args\<lparr>sort_by := Some ''OC Cutoff''\<rparr>"
  let ?desc = "no_args\<lparr>sort_by := Some ''OC Cutoff'', sort_order := Desc\<rparr>"
  let ?code = "no_args\<lparr>sort_by := Some ''College Code''\<rparr>"
  have rows: "rows sample_table \<noteq> []" "rows mixed_table \<noteq> []"
    by (simp_all add: sample_table_def mixed_table_def)
  have oc: "resolve_sort_column ''OC Cutoff'' = Some ''OC Cutoff''"
    and cc: "resolve_sort_column ''College Code'' = Some ''College Code''"
    by (simp_all add: resolve_sort_column_def COLUMN_MAPPING_def)
  have cut: "''OC Cutoff'' \<in> set CUTOFF_COLUMNS" "''College Code'' \<notin> set CUTOFF_COLUMNS"
    by (simp_all add: CUTOFF_COLUMNS_def)
  have up: "map (\<lambda>r. cell_of r ''OC Cutoff'')
     (rows (fst (apply_sorting plain_pandas sample_table ?asc))) = [Num 150, Num 200, NA]"
    by code_simp
  have down: "map (\<lambda>r. cell_of r ''OC Cutoff'')
     (rows (fst (apply_sorting plain_pandas sample_table ?desc))) = [NA, Num 200, Num 150]"
    by code_simp
  have failed: "snd (apply_sorting plain_pandas mixed_table ?code) \<noteq> []"
    by code_simp
  note np = null_placement [OF plain_pandas_permuting plain_pandas_sorts_numbers]
  have a: "sort_by ?asc = Some ''OC Cutoff''" "sort_order ?asc = Asc"
    and d: "sort_by ?desc = Some ''OC Cutoff''" "sort_order ?desc = Desc"
    and k: "sort_by ?code = Some ''College Code''"
    by (simp_all add: no_args_def)
  have ne: "''OC Cutoff'' \<noteq> []" "''College Code'' \<noteq> []" by simp_all
  from np [OF sample_table_normalized rows(1) a(1) ne(1) oc] cut(1) a(2)
  have l: "nulls_last ''OC Cutoff'' (rows (fst (apply_sorting plain_pandas sample_table ?asc)))"
    by blast
  from np [OF sample_table_normalized rows(1) d(1) ne(1) oc] cut(1) d(2)
  have f: "nulls_first ''OC Cutoff''
             (rows (fst (apply_sorting plain_pandas sample_table ?desc)))"
    by blast
  from np [OF mixed_table_normalized rows(2) k ne(2) cc] cut(2) failed
  have e: "\<exists>e. apply_sorting plain_pandas mixed_table ?code =
                 (mixed_table, [SortError ''College Code'' e])"
    by blast
  from up l down f e show ?thesis by (intro conjI)
qed

text \<open>
  Claim C2 as stated has the null keys last after every sort on a column that is not a
  cutoff column. The answer \<^verbatim>\<open>[{"coc": null}, {"coc": 1}, {"coc": "2"}]\<close> of the API
  normalizes to a table whose college codes are a null, a number and a string; sorting it
  by the college code fails on the comparison of the number with the string, and the
  table comes back as it was, with the null code first.
\<close>

theorem null_placement_counterexample:
  "process_data plain_pandas mixed_raw = Inr mixed_table \<and>
   resolve_sort_column ''College Code'' = Some ''College Code'' \<and>
   ''College Code'' \<notin> set CUTOFF_COLUMNS \<and>
   map (\<lambda>r. cell_of r ''College Code'')
     (rows (fst (apply_sorting plain_pandas mixed_table
        (no_args\<lparr>sort_by := Some ''College Code''\<rparr>)))) = [NA, Num 1, Str ''2''] \<and>
   \<not> nulls_last ''College Code''
     (rows (fst (apply_sorting plain_pandas mixed_table
        (no_args\<lparr>sort_by := Some ''College Code''\<rparr>))))"
  by code_simp

section \<open>Properties of \<^verbatim>\<open>process_data\<close>\<close>

text \<open>
  The columns of \<^verbatim>\<open>pd.DataFrame(raw_data)\<close> are the field names of the records, each at
  the place of its first occurrence.
\<close>

lemma remdups_snoc: "remdups (ys @ [x]) = filter (\<lambda>y. y \<noteq> x) (remdups ys) @ [x]"
  by (induction ys) auto

lemma first_occurrence_Cons:
  "rev (remdups (rev (x # xs))) = x # filter (\<lambda>y. y \<noteq> x) (rev (remdups (rev xs)))"
  by (simp add: remdups_snoc rev_filter)

lemma first_seen_first_occurrence:
  "first_seen seen ks = seen @ filter (\<lambda>k. k \<notin> set seen) (rev (remdups (rev ks)))"
proof (induction ks arbitrary: seen)
  case Nil
  then show ?case by simp
next
  case (Cons k ks)
  let ?F = "rev (remdups (rev ks))"
  show ?case
  proof (cases "k \<in> set seen")
    case True
    then have "filter (\<lambda>x. x \<notin> set seen) (filter (\<lambda>y. y \<noteq> k) ?F) =
               filter (\<lambda>x. x \<notin> set seen) ?F"
      by (auto intro: filter_cong)
    with True Cons.IH [of seen] show ?thesis
      unfolding first_occurrence_Cons by simp
  next
    case False
    have "filter (\<lambda>x. x \<notin> set (seen @ [k])) ?F =
          filter (\<lambda>x. x \<notin> set seen) (filter (\<lambda>y. y \<noteq> k) ?F)"
      by (auto intro: filter_cong)
    with False Cons.IH [of "seen @ [k]"] show ?thesis
      unfolding first_occurrence_Cons by simp
  qed
qed

lemma columns_DataFrame: "columns (DataFrame raw) = raw_fields raw"
  by (simp add: DataFrame_def Let_def raw_fields_def first_seen_first_occurrence)

lemma distinct_raw_fields: "distinct (raw_fields raw)"
  by (simp add: raw_fields_def)

lemma DataFrame_frame:
  "DataFrame raw = frame (map (\<lambda>c. (c, \<lambda>r. cell_of r c)) (raw_fields raw)) raw"
  unfolding columns_DataFrame [symmetric]
  by (simp add: DataFrame_def frame_def Let_def o_def)

lemma drop_column_frame:
  "drop_column c (frame sp raw) = frame (filter (\<lambda>lg. fst lg \<noteq> c) sp) raw"
  by (simp add: drop_column_def frame_def filter_map o_def)

lemma rename_frame:
  "rename m (frame sp raw) = frame (map (\<lambda>lg. (renamed m (fst lg), snd lg)) sp) raw"
  by (simp add: rename_def frame_def o_def)

lemma ensure_column_frame:
  "ensure_column (frame sp raw) c =
     frame (if c \<in> set (map fst sp) then sp else sp @ [(c, \<lambda>r. NA)]) raw"
  by (simp add: ensure_column_def frame_def)

lemma map_column_frame:
  "map_column c f (frame sp raw) = frame (convert_spec f sp c) raw"
  by (simp add: map_column_def frame_def convert_spec_def o_def if_distrib cong: if_cong)

lemma select_columns_frame:
  "select_columns cs (frame sp raw) =
     frame (concat (map (\<lambda>c. filter (\<lambda>lg. fst lg = c) sp) cs)) raw"
  by (simp add: select_columns_def frame_def map_concat filter_map o_def)

lemma columns_frame [simp]: "columns (frame sp raw) = map fst sp"
  by (simp add: frame_def)

lemma rows_frame: "rows (frame sp raw) = map (\<lambda>r. map (\<lambda>lg. (fst lg, snd lg r)) sp) raw"
  by (simp add: frame_def)

lemma convert_spec_labels [simp]: "map fst (convert_spec f sp c) = map fst sp"
  by (induction sp) (auto simp: convert_spec_def)

lemma convert_spec_absent: "c \<notin> set (map fst sp) \<Longrightarrow> convert_spec f sp c = sp"
  by (induction sp) (auto simp: convert_spec_def)

lemma convert_cutoff_frame:
  assumes "convert_cutoff P c (frame sp raw) = Inr df"
  shows "df = frame (convert_spec (to_numeric P) sp c) raw"
proof (cases "c \<in> set (map fst sp)")
  case True
  with assms show ?thesis
    by (auto simp: convert_cutoff_def map_column_frame split: if_splits)
next
  case False
  with assms show ?thesis
    by (auto simp: convert_cutoff_def convert_spec_absent split: if_splits)
qed

lemma convert_seats_frame:
  assumes "convert_seats P c (frame sp raw) = Inr df"
  shows "df = frame (convert_spec (to_numeric P) sp c) raw"
proof (cases "c \<in> set (map fst sp)")
  case True
  with assms show ?thesis
    by (auto simp: convert_seats_def map_column_frame split: if_splits)
next
  case False
  with assms show ?thesis
    by (auto simp: convert_seats_def convert_spec_absent split: if_splits)
qed

lemma for_each_frame:
  assumes step: "\<And>c sp df. f c (frame sp raw) = Inr df \<Longrightarrow> df = frame (convert_spec g sp c) raw"
    and "for_each f cs (frame sp raw) = Inr df"
  shows "df = frame (foldl (convert_spec g) sp cs) raw"
  using assms(2)
proof (induction cs arbitrary: sp)
  case Nil
  then show ?case by simp
next
  case (Cons c cs)
  from Cons.prems obtain d where d: "f c (frame sp raw) = Inr d"
    and rest: "for_each f cs d = Inr df"
    by (auto split: sum.splits)
  from step [OF d] have "d = frame (convert_spec g sp c) raw" .
  with rest Cons.IH show ?case by simp
qed

lemma canonical_names_distinct: "distinct (map snd COLUMN_MAPPING)"
  by (simp add: COLUMN_MAPPING_def)

lemma renamed_code:
  "k \<in> set (map fst m) \<Longrightarrow> renamed m k \<in> set (map snd m)"
proof -
  assume "k \<in> set (map fst m)"
  then obtain v where v: "map_of m k = Some v"
    by (cases "map_of m k") (auto simp: map_of_eq_None_iff)
  then have "(k, v) \<in> set m" by (rule map_of_SomeD)
  then have "v \<in> set (map snd m)" by force
  with v show ?thesis by (simp add: renamed_def)
qed

lemma renamed_other: "k \<notin> set (map fst m) \<Longrightarrow> renamed m k = k"
proof -
  assume "k \<notin> set (map fst m)"
  then have "map_of m k = None" by (simp add: map_of_eq_None_iff)
  then show ?thesis by (simp add: renamed_def)
qed

text \<open>
  The labels that are not canonical after the renaming are the fields that are neither a
  code nor a canonical name.
\<close>

lemma renamed_labels_extra:
  "filter (\<lambda>l. l \<notin> set (map snd m)) (map (renamed m) ks) =
   filter (\<lambda>k. k \<notin> set (map fst m) \<and> k \<notin> set (map snd m)) ks"
proof (induction ks)
  case Nil
  then show ?case by simp
next
  case (Cons k ks)
  show ?case
  proof (cases "k \<in> set (map fst m)")
    case True
    then have "renamed m k \<in> set (map snd m)" by (rule renamed_code)
    with True Cons show ?thesis by simp
  next
    case False
    then have "renamed m k = k" by (rule renamed_other)
    with False Cons show ?thesis by simp
  qed
qed

text \<open>The table after the identifier is dropped and the fields are renamed.\<close>

lemma drop_id_frame:
  "(if ''_id'' \<in> set (columns (frame sp raw)) then drop_column ''_id'' (frame sp raw)
    else frame sp raw) = frame (filter (\<lambda>lg. fst lg \<noteq> ''_id'') sp) raw"
proof (cases "''_id'' \<in> set (map fst sp)")
  case True
  then show ?thesis by (simp add: drop_column_frame)
next
  case False
  then have "filter (\<lambda>lg. fst lg \<noteq> ''_id'') sp = sp"
    by (force simp: filter_id_conv)
  with False show ?thesis by simp
qed

lemma renamed_frame_tidy:
  "tidy (extra_fields raw)
     (map (\<lambda>c. (renamed COLUMN_MAPPING c, \<lambda>r. cell_of r c))
        (filter (\<lambda>k. k \<noteq> ''_id'') (raw_fields raw)))"
proof -
  let ?K1 = "filter (\<lambda>k. k \<noteq> ''_id'') (raw_fields raw)"
  have e: "filter (\<lambda>l. l \<notin> set (map snd COLUMN_MAPPING)) (map (renamed COLUMN_MAPPING) ?K1) =
           extra_fields raw"
    unfolding renamed_labels_extra extra_fields_def by simp
  have g: "renamed COLUMN_MAPPING c = c"
    if "renamed COLUMN_MAPPING c \<notin> set (map snd COLUMN_MAPPING)" for c
    using that renamed_code [of c COLUMN_MAPPING] renamed_other [of c COLUMN_MAPPING]
    by blast
  let ?sp = "map (\<lambda>c. (renamed COLUMN_MAPPING c, \<lambda>r. cell_of r c)) ?K1"
  have l: "map fst ?sp = map (renamed COLUMN_MAPPING) ?K1"
    by (simp add: o_def)
  have m: "\<forall>lg \<in> set ?sp. fst lg \<notin> set (map snd COLUMN_MAPPING) \<longrightarrow>
             snd lg = (\<lambda>r. cell_of r (fst lg))"
  proof (intro ballI impI)
    fix lg
    assume "lg \<in> set ?sp" and n: "fst lg \<notin> set (map snd COLUMN_MAPPING)"
    then obtain c where lg: "lg = (renamed COLUMN_MAPPING c, \<lambda>r. cell_of r c)"
      by auto
    with n have "renamed COLUMN_MAPPING c \<notin> set (map snd COLUMN_MAPPING)" by simp
    then have "renamed COLUMN_MAPPING c = c" by (rule g)
    with lg show "snd lg = (\<lambda>r. cell_of r (fst lg))" by simp
  qed
  show ?thesis
    unfolding tidy_def l by (intro conjI e m)
qed

lemma renamed_frame_labels:
  "map fst (map (\<lambda>c. (renamed COLUMN_MAPPING c, \<lambda>r. cell_of r c))
              (filter (\<lambda>k. k \<noteq> ''_id'') (raw_fields raw))) =
   map (renamed COLUMN_MAPPING) (filter (\<lambda>k. k \<noteq> ''_id'') (raw_fields raw))"
  by (simp add: o_def)

lemma tidy_convert:
  assumes "tidy extras sp" and "c \<in> set (map snd COLUMN_MAPPING)"
  shows "tidy extras (convert_spec f sp c)"
proof -
  from assms(1) have
    m: "\<forall>lg \<in> set sp. fst lg \<notin> set (map snd COLUMN_MAPPING) \<longrightarrow>
              snd lg = (\<lambda>r. cell_of r (fst lg))"
    and e: "filter (\<lambda>l. l \<notin> set (map snd COLUMN_MAPPING)) (map fst sp) = extras"
    by (simp_all add: tidy_def)
  have m': "\<forall>lg \<in> set (convert_spec f sp c). fst lg \<notin> set (map snd COLUMN_MAPPING) \<longrightarrow>
              snd lg = (\<lambda>r. cell_of r (fst lg))"
  proof (intro ballI impI)
    fix lg
    assume a: "lg \<in> set (convert_spec f sp c)"
      and n: "fst lg \<notin> set (map snd COLUMN_MAPPING)"
    from a have "lg \<in> (\<lambda>lg. if fst lg = c then (c, \<lambda>r. f (snd lg r)) else lg) ` set sp"
      by (simp add: convert_spec_def)
    then obtain lg0 where lg0: "lg0 \<in> set sp"
      and lg: "lg = (if fst lg0 = c then (c, \<lambda>r. f (snd lg0 r)) else lg0)"
      by (rule imageE)
    have "fst lg0 \<noteq> c"
    proof
      assume "fst lg0 = c"
      with lg have "fst lg = c" by simp
      with n assms(2) show False by simp
    qed
    with lg have "lg = lg0" by simp
    with lg0 n m show "snd lg = (\<lambda>r. cell_of r (fst lg))" by blast
  qed
  show ?thesis
    unfolding tidy_def convert_spec_labels by (intro conjI m' e)
qed

lemma tidy_conversions:
  assumes "tidy extras sp" and "set cs \<subseteq> set (map snd COLUMN_MAPPING)"
  shows "tidy extras (foldl (convert_spec f) sp cs)"
  using assms
proof (induction cs arbitrary: sp)
  case Nil
  then show ?case by simp
next
  case (Cons c cs)
  from Cons.prems have "c \<in> set (map snd COLUMN_MAPPING)"
    and rest: "set cs \<subseteq> set (map snd COLUMN_MAPPING)"
    by simp_all
  with Cons.prems(1) have "tidy extras (convert_spec f sp c)" by (simp only: tidy_convert)
  from Cons.IH [OF this rest] show ?case by simp
qed

lemma conversions_labels [simp]: "map fst (foldl (convert_spec f) sp cs) = map fst sp"
  by (induction cs arbitrary: sp) simp_all

lemma tidy_ensure:
  assumes "tidy extras sp" and "c \<in> set (map snd COLUMN_MAPPING)"
  shows "tidy extras (if c \<in> set (map fst sp) then sp else sp @ [(c, \<lambda>r. NA)])"
  using assms by (auto simp: tidy_def)

lemma ensure_loop_frame:
  assumes "tidy extras sp" and "set cs \<subseteq> set (map snd COLUMN_MAPPING)"
  shows "\<exists>sp'. foldl ensure_column (frame sp raw) cs = frame sp' raw \<and> tidy extras sp' \<and>
               set cs \<subseteq> set (map fst sp') \<and> set (map fst sp) \<subseteq> set (map fst sp') \<and>
               (distinct (map fst sp) \<longrightarrow> distinct (map fst sp'))"
  using assms
proof (induction cs arbitrary: sp)
  case Nil
  then show ?case by auto
next
  case (Cons c cs)
  define sp1 where "sp1 = (if c \<in> set (map fst sp) then sp else sp @ [(c, \<lambda>r. NA)])"
  from Cons.prems have cin: "c \<in> set (map snd COLUMN_MAPPING)" by simp
  from Cons.prems(1) cin have t1: "tidy extras sp1"
    unfolding sp1_def by (rule tidy_ensure)
  from Cons.prems have "set cs \<subseteq> set (map snd COLUMN_MAPPING)" by simp
  from Cons.IH [OF t1 this] obtain sp' where
    f: "foldl ensure_column (frame sp1 raw) cs = frame sp' raw" and t: "tidy extras sp'"
    and s1: "set cs \<subseteq> set (map fst sp')" and s2: "set (map fst sp1) \<subseteq> set (map fst sp')"
    and s3: "distinct (map fst sp1) \<longrightarrow> distinct (map fst sp')"
    by blast
  have "distinct (map fst sp) \<Longrightarrow> distinct (map fst sp1)"
    by (simp add: sp1_def)
  with s3 have r3: "distinct (map fst sp) \<longrightarrow> distinct (map fst sp')" by blast
  have a: "c \<in> set (map fst sp1)" and b: "set (map fst sp) \<subseteq> set (map fst sp1)"
    by (auto simp: sp1_def)
  from s1 s2 a have r1: "set (c # cs) \<subseteq> set (map fst sp')"
    by (simp only: list.set) blast
  from s2 b have r2: "set (map fst sp) \<subseteq> set (map fst sp')"
    by (rule order_trans [rotated])
  have "foldl ensure_column (frame sp raw) (c # cs) = frame sp' raw"
    using f by (simp add: ensure_column_frame sp1_def)
  with t r1 r2 r3 show ?case by blast
qed

text \<open>Taking columns by label from a table with distinct labels.\<close>

lemma filter_label:
  assumes "distinct (map fst sp)" and "(c, g) \<in> set sp"
  shows "filter (\<lambda>lg. fst lg = c) sp = [(c, g)]"
  using assms
proof (induction sp)
  case Nil
  then show ?case by simp
next
  case (Cons lg sp)
  show ?case
  proof (cases "lg = (c, g)")
    case True
    with Cons.prems have "\<forall>x \<in> set sp. fst x \<noteq> c" by force
    then have "filter (\<lambda>lg. fst lg = c) sp = []" by (simp add: filter_empty_conv)
    with True show ?thesis by simp
  next
    case False
    with Cons.prems have in_sp: "(c, g) \<in> set sp" by simp
    then have "c \<in> set (map fst sp)" by force
    moreover from Cons.prems(1) have "fst lg \<notin> set (map fst sp)" by simp
    ultimately have "fst lg \<noteq> c" by blast
    moreover from Cons.prems(1) have "distinct (map fst sp)" by simp
    ultimately show ?thesis using Cons.IH in_sp by simp
  qed
qed

lemma pick_labels:
  assumes "distinct (map fst sp)" and "set cs \<subseteq> set (map fst sp)"
  shows "map fst (concat (map (\<lambda>c. filter (\<lambda>lg. fst lg = c) sp) cs)) = cs"
  using assms(2)
proof (induction cs)
  case Nil
  then show ?case by simp
next
  case (Cons c cs)
  then obtain g where "(c, g) \<in> set sp" by auto
  with assms(1) have "filter (\<lambda>lg. fst lg = c) sp = [(c, g)]" by (rule filter_label)
  with Cons show ?case by simp
qed

text \<open>
  Taking columns by label from a table in which a label may occur more than once: each
  label gives the block of the columns that bear it.
\<close>

lemma remdups_adj_block:
  "c \<notin> set ys \<Longrightarrow> remdups_adj (replicate (Suc n) c @ ys) = c # remdups_adj ys"
proof (induction n)
  case 0
  then show ?case by (cases ys) simp_all
next
  case (Suc n)
  have "remdups_adj (replicate (Suc (Suc n)) c @ ys) =
        remdups_adj (c # c # (replicate n c @ ys))"
    by simp
  also have "\<dots> = remdups_adj (c # (replicate n c @ ys))"
    by (simp only: remdups_adj.simps refl if_True)
  also have "\<dots> = remdups_adj (replicate (Suc n) c @ ys)"
    by simp
  also have "\<dots> = c # remdups_adj ys"
    using Suc.prems by (rule Suc.IH)
  finally show ?case .
qed

lemma filter_label_block:
  assumes "c \<in> set xs"
  shows "\<exists>n. filter (\<lambda>x. x = c) xs = replicate (Suc n) c"
proof -
  let ?f = "filter (\<lambda>x. x = c) xs"
  have "\<forall>y \<in> set ?f. y = c" by simp
  then have r: "replicate (length ?f) c = ?f" by (rule replicate_length_same)
  from assms have "?f \<noteq> []" by (simp add: filter_empty_conv)
  then obtain n where n: "length ?f = Suc n" by (cases ?f) simp_all
  have "?f = replicate (Suc n) c"
    using r unfolding n by (rule sym)
  then show ?thesis by (rule exI)
qed

lemma blocks_subset: "set (concat (map (\<lambda>c. filter (\<lambda>x. x = c) xs) cs)) \<subseteq> set cs"
  by (induction cs) auto

lemma remdups_adj_blocks:
  assumes "distinct cs" and "set cs \<subseteq> set xs"
  shows "remdups_adj (concat (map (\<lambda>c. filter (\<lambda>x. x = c) xs) cs)) = cs"
  using assms
proof (induction cs)
  case Nil
  then show ?case by simp
next
  case (Cons c cs)
  let ?rest = "concat (map (\<lambda>c. filter (\<lambda>x. x = c) xs) cs)"
  from Cons.prems have "c \<in> set xs" by simp
  then have "\<exists>n. filter (\<lambda>x. x = c) xs = replicate (Suc n) c"
    by (rule filter_label_block)
  then obtain n where n: "filter (\<lambda>x. x = c) xs = replicate (Suc n) c"
    by (rule exE)
  have "set ?rest \<subseteq> set cs" by (rule blocks_subset)
  moreover from Cons.prems(1) have "c \<notin> set cs" by simp
  ultimately have "c \<notin> set ?rest" by blast
  then have b: "remdups_adj (replicate (Suc n) c @ ?rest) = c # remdups_adj ?rest"
    by (rule remdups_adj_block)
  from Cons.prems have "distinct cs" and "set cs \<subseteq> set xs" by simp_all
  then have ih: "remdups_adj ?rest = cs" by (rule Cons.IH)
  have "concat (map (\<lambda>c. filter (\<lambda>x. x = c) xs) (c # cs)) = replicate (Suc n) c @ ?rest"
    by (simp only: list.map concat.simps n)
  then show ?case by (simp only: b ih)
qed

lemma pick_blocks:
  "map fst (concat (map (\<lambda>c. filter (\<lambda>lg. fst lg = c) sp) cs)) =
   concat (map (\<lambda>c. filter (\<lambda>x. x = c) (map fst sp)) cs)"
  by (simp add: map_concat filter_map o_def)

text \<open>A label that is not canonical is borne by one column.\<close>

lemma filter_label_once:
  assumes "distinct (filter Q (map fst sp))" and "Q k" and "(k, g) \<in> set sp"
  shows "filter (\<lambda>lg. fst lg = k) sp = [(k, g)]"
  using assms(1,3)
proof (induction sp)
  case Nil
  then show ?case by simp
next
  case (Cons lg sp)
  show ?case
  proof (cases "lg = (k, g)")
    case True
    with Cons.prems(1) assms(2) have "k \<notin> set (filter Q (map fst sp))" by simp
    with assms(2) have "\<forall>x \<in> set sp. fst x \<noteq> k" by force
    then have "filter (\<lambda>lg. fst lg = k) sp = []" by (simp add: filter_empty_conv)
    with True show ?thesis by simp
  next
    case False
    with Cons.prems have in_sp: "(k, g) \<in> set sp" by simp
    then have "k \<in> set (map fst sp)" by force
    with assms(2) have kin: "k \<in> set (filter Q (map fst sp))" by simp
    have "fst lg \<noteq> k"
    proof
      assume "fst lg = k"
      with Cons.prems(1) assms(2) have "k \<notin> set (filter Q (map fst sp))" by simp
      with kin show False by contradiction
    qed
    moreover from Cons.prems(1) have "distinct (filter Q (map fst sp))"
      by (simp split: if_splits)
    ultimately show ?thesis using Cons.IH in_sp by simp
  qed
qed

lemma pick_extras:
  assumes "tidy extras sp" and "distinct extras" and "set ks \<subseteq> set extras"
  shows "concat (map (\<lambda>c. filter (\<lambda>lg. fst lg = c) sp) ks) =
         map (\<lambda>k. (k, \<lambda>r. cell_of r k)) ks"
  using assms(3)
proof (induction ks)
  case Nil
  then show ?case by simp
next
  case (Cons k ks)
  from assms(1) have m: "\<forall>lg \<in> set sp. fst lg \<notin> set (map snd COLUMN_MAPPING) \<longrightarrow>
              snd lg = (\<lambda>r. cell_of r (fst lg))"
    and e: "filter (\<lambda>l. l \<notin> set (map snd COLUMN_MAPPING)) (map fst sp) = extras"
    by (simp_all add: tidy_def)
  from Cons.prems have "k \<in> set extras" by simp
  then have kin: "k \<in> set (map fst sp)" and kn: "k \<notin> set (map snd COLUMN_MAPPING)"
    unfolding e [symmetric] by simp_all
  from kin obtain g where g: "(k, g) \<in> set sp" by auto
  from kn have "fst (k, g) \<notin> set (map snd COLUMN_MAPPING)" by simp
  with m g have "snd (k, g) = (\<lambda>r. cell_of r (fst (k, g)))" by blast
  then have "g = (\<lambda>r. cell_of r k)" by simp
  moreover from assms(2) have
    "distinct (filter (\<lambda>l. l \<notin> set (map snd COLUMN_MAPPING)) (map fst sp))"
    unfolding e .
  then have "filter (\<lambda>lg. fst lg = k) sp = [(k, g)]"
    using kn g by (rule filter_label_once)
  ultimately show ?case using Cons by simp
qed

lemma reorder_frame:
  assumes t: "tidy extras sp" and d: "distinct extras"
    and c: "set (map snd COLUMN_MAPPING) \<subseteq> set (map fst sp)"
  shows "\<exists>canon. remdups_adj (map fst canon) = map snd COLUMN_MAPPING \<and>
           (distinct (map fst sp) \<longrightarrow> map fst canon = map snd COLUMN_MAPPING) \<and>
           set canon \<subseteq> set sp \<and>
           reorder (frame sp raw) =
             frame (canon @ map (\<lambda>k. (k, \<lambda>r. cell_of r k)) extras) raw"
proof -
  let ?names = "map snd COLUMN_MAPPING"
  let ?pick = "\<lambda>cs. concat (map (\<lambda>c. filter (\<lambda>lg. fst lg = c) sp) cs)"
  from t have e: "filter (\<lambda>l. l \<notin> set ?names) (map fst sp) = extras"
    by (simp add: tidy_def)
  from c have o: "filter (\<lambda>col. col \<in> set (map fst sp)) ?names = ?names"
    by (auto simp: filter_id_conv)
  have r: "reorder (frame sp raw) = frame (?pick ?names @ ?pick extras) raw"
    unfolding reorder_def Let_def columns_frame o e select_columns_frame by simp
  have "set extras \<subseteq> set extras" by (rule order_refl)
  with t d have "?pick extras = map (\<lambda>k. (k, \<lambda>r. cell_of r k)) extras"
    by (rule pick_extras)
  moreover from canonical_names_distinct c
  have "remdups_adj (map fst (?pick ?names)) = ?names"
    unfolding pick_blocks by (rule remdups_adj_blocks)
  moreover have "distinct (map fst sp) \<longrightarrow> map fst (?pick ?names) = ?names"
  proof
    assume "distinct (map fst sp)"
    from this c show "map fst (?pick ?names) = ?names" by (rule pick_labels)
  qed
  moreover have "set (?pick ?names) \<subseteq> set sp" by auto
  ultimately show ?thesis using r by (intro exI [of _ "?pick ?names"]) simp
qed

text \<open>The cells of the converted columns.\<close>

lemma to_numeric_not_str: "\<not> is_str (to_numeric P x)"
  by (cases x) (simp_all add: to_numeric_def is_str_def split: option.splits)

lemma convert_spec_member:
  assumes "lg \<in> set (convert_spec f sp c)"
  obtains lg0 where "lg0 \<in> set sp" and "fst lg0 = c" and "lg = (c, \<lambda>r. f (snd lg0 r))"
  | "lg \<in> set sp" and "fst lg \<noteq> c"
proof -
  from assms have "lg \<in> (\<lambda>lg. if fst lg = c then (c, \<lambda>r. f (snd lg r)) else lg) ` set sp"
    by (simp add: convert_spec_def)
  then obtain lg0 where lg0: "lg0 \<in> set sp"
    and lg: "lg = (if fst lg0 = c then (c, \<lambda>r. f (snd lg0 r)) else lg0)"
    by (rule imageE)
  show thesis
  proof (cases "fst lg0 = c")
    case True
    with lg0 lg that(1) show ?thesis by simp
  next
    case False
    with lg0 lg that(2) show ?thesis by simp
  qed
qed

lemma no_strings_convert:
  assumes "no_strings C raw sp"
  shows "no_strings (insert c C) raw (convert_spec (to_numeric P) sp c)"
  unfolding no_strings_def
proof (intro ballI impI)
  fix lg r
  assume a: "lg \<in> set (convert_spec (to_numeric P) sp c)" and l: "fst lg \<in> insert c C"
    and r: "r \<in> set raw"
  from a show "\<not> is_str (snd lg r)"
  proof (cases rule: convert_spec_member)
    case (1 lg0)
    then show ?thesis by (simp add: to_numeric_not_str)
  next
    case 2
    with l have "fst lg \<in> C" by simp
    with assms 2 r show ?thesis unfolding no_strings_def by blast
  qed
qed

lemma no_strings_conversions:
  assumes "no_strings C raw sp"
  shows "no_strings (C \<union> set cs) raw (foldl (convert_spec (to_numeric P)) sp cs)"
  using assms
proof (induction cs arbitrary: sp C)
  case Nil
  then show ?case by simp
next
  case (Cons c cs)
  from Cons.prems have "no_strings (insert c C) raw (convert_spec (to_numeric P) sp c)"
    by (rule no_strings_convert)
  from Cons.IH [OF this] show ?case by simp
qed

lemma cell_of_frame_row:
  assumes "distinct (map fst sp)" and "(c, g) \<in> set sp"
  shows "cell_of (map (\<lambda>lg. (fst lg, snd lg r)) sp) c = g r"
proof -
  have "distinct (map fst (map (\<lambda>lg. (fst lg, snd lg r)) sp))"
    using assms(1) by (simp add: o_def)
  moreover have "(c, g r) \<in> set (map (\<lambda>lg. (fst lg, snd lg r)) sp)"
    using assms(2) by force
  ultimately have "map_of (map (\<lambda>lg. (fst lg, snd lg r)) sp) c = Some (g r)"
    by (rule map_of_is_SomeI)
  then show ?thesis by (simp add: cell_of_def)
qed

lemma column_frame:
  assumes "distinct (map fst sp)" and "(c, g) \<in> set sp"
  shows "column (frame sp raw) c = map g raw"
  by (simp add: column_def rows_frame cell_of_frame_row [OF assms] o_def)

lemma whole_convert_seats:
  assumes d: "distinct (map fst sp)" and w: "whole_numbers S raw sp"
    and ok: "convert_seats P c (frame sp raw) = Inr df"
  shows "whole_numbers (insert c S) raw (convert_spec (to_numeric P) sp c)"
  unfolding whole_numbers_def
proof (intro ballI impI)
  fix lg r
  assume a: "lg \<in> set (convert_spec (to_numeric P) sp c)" and l: "fst lg \<in> insert c S"
    and r: "r \<in> set raw"
  from a show "whole (snd lg r)"
  proof (cases rule: convert_spec_member)
    case (1 lg0)
    then have in_sp: "(c, snd lg0) \<in> set sp" by (metis prod.collapse)
    then have "c \<in> set (map fst sp)" by force
    with ok have "\<forall>x \<in> set (column (frame sp raw) c). whole (to_numeric P x)"
      by (simp add: convert_seats_def split: if_splits)
    then have "\<forall>x \<in> set (map (snd lg0) raw). whole (to_numeric P x)"
      by (simp only: column_frame [OF d in_sp])
    with r have "whole (to_numeric P (snd lg0 r))" by simp
    with 1 show ?thesis by simp
  next
    case 2
    with l have "fst lg \<in> S" by simp
    with w 2 r show ?thesis unfolding whole_numbers_def by blast
  qed
qed

lemma whole_seats_loop:
  assumes "distinct (map fst sp)" and "whole_numbers S raw sp"
    and "for_each (convert_seats P) cs (frame sp raw) = Inr df"
  shows "whole_numbers (S \<union> set cs) raw (foldl (convert_spec (to_numeric P)) sp cs)"
  using assms
proof (induction cs arbitrary: sp S)
  case Nil
  then show ?case by simp
next
  case (Cons c cs)
  from Cons.prems(3) obtain d where d: "convert_seats P c (frame sp raw) = Inr d"
    and rest: "for_each (convert_seats P) cs d = Inr df"
    by (auto split: sum.splits)
  from d have fd: "d = frame (convert_spec (to_numeric P) sp c) raw"
    by (rule convert_seats_frame)
  from Cons.prems(1,2) d
  have w: "whole_numbers (insert c S) raw (convert_spec (to_numeric P) sp c)"
    by (rule whole_convert_seats)
  from Cons.prems(1) have dl: "distinct (map fst (convert_spec (to_numeric P) sp c))"
    by simp
  from Cons.IH [OF dl w rest [unfolded fd]] show ?case by simp
qed

lemma no_strings_subset:
  "set sp' \<subseteq> set sp \<Longrightarrow> no_strings C raw sp \<Longrightarrow> no_strings C raw sp'"
  unfolding no_strings_def by blast

lemma whole_numbers_subset:
  "set sp' \<subseteq> set sp \<Longrightarrow> whole_numbers S raw sp \<Longrightarrow> whole_numbers S raw sp'"
  unfolding whole_numbers_def by blast

lemma no_strings_mono: "C' \<subseteq> C \<Longrightarrow> no_strings C raw sp \<Longrightarrow> no_strings C' raw sp"
  unfolding no_strings_def by blast

lemma whole_numbers_mono: "S' \<subseteq> S \<Longrightarrow> whole_numbers S raw sp \<Longrightarrow> whole_numbers S' raw sp"
  unfolding whole_numbers_def by blast

lemma drop_id_of_frame:
  assumes "df = frame sp raw"
  shows "(if ''_id'' \<in> set (columns df) then drop_column ''_id'' df else df) =
         frame (filter (\<lambda>lg. fst lg \<noteq> ''_id'') sp) raw"
  unfolding assms by (rule drop_id_frame)

lemma extra_fields_distinct: "distinct (extra_fields raw)"
  unfolding extra_fields_def using distinct_raw_fields by (rule distinct_filter)

lemma extra_fields_not_canonical:
  "\<forall>k \<in> set (extra_fields raw). k \<notin> set (map snd COLUMN_MAPPING)"
  by (simp add: extra_fields_def)

text \<open>
  A table that \<^verbatim>\<open>process_data\<close> returns on a list of records that is not empty consists
  of the canonical columns, in their order, followed by the extra fields with the cells of
  the raw records. A canonical label is borne by one column, unless two fields of the
  records get this label; then the columns that bear it stand side by side.
\<close>

lemma process_data_frame:
  assumes ne: "raw \<noteq> []" and ok: "process_data P raw = Inr df"
  shows "\<exists>canon. remdups_adj (map fst canon) = map snd COLUMN_MAPPING \<and>
           (no_clash raw \<longrightarrow>
              map fst canon = map snd COLUMN_MAPPING \<and>
              whole_numbers (set seat_cols) raw canon) \<and>
           no_strings (set CUTOFF_COLUMNS \<union> set seat_cols) raw canon \<and>
           df = frame (canon @ map (\<lambda>k. (k, \<lambda>r. cell_of r k)) (extra_fields raw)) raw"
proof -
  let ?E = "extra_fields raw"
  let ?K1 = "filter (\<lambda>k. k \<noteq> ''_id'') (raw_fields raw)"
  let ?sp2 = "map (\<lambda>c. (renamed COLUMN_MAPPING c, \<lambda>r. cell_of r c)) ?K1"
  let ?sp0 = "map (\<lambda>c. (c, \<lambda>r. cell_of r c)) (raw_fields raw)"
  have d1: "(if ''_id'' \<in> set (columns (DataFrame raw)) then drop_column ''_id'' (DataFrame raw)
             else DataFrame raw) = frame (filter (\<lambda>lg. fst lg \<noteq> ''_id'') ?sp0) raw"
    using DataFrame_frame by (rule drop_id_of_frame)
  have f1: "filter (\<lambda>lg. fst lg \<noteq> ''_id'') ?sp0 = map (\<lambda>c. (c, \<lambda>r. cell_of r c)) ?K1"
    by (simp add: filter_map o_def)
  have d2: "rename COLUMN_MAPPING
              (if ''_id'' \<in> set (columns (DataFrame raw)) then drop_column ''_id'' (DataFrame raw)
               else DataFrame raw) = frame ?sp2 raw"
    unfolding d1 f1 rename_frame by (simp add: o_def)
  have t2: "tidy ?E ?sp2" by (rule renamed_frame_tidy)
  have l2: "no_clash raw \<Longrightarrow> distinct (map fst ?sp2)"
    unfolding renamed_frame_labels no_clash_def .
  have "set (map snd COLUMN_MAPPING) \<subseteq> set (map snd COLUMN_MAPPING)" by (rule order_refl)
  from ensure_loop_frame [OF t2 this, of raw]
  obtain sp3 where d3: "foldl ensure_column (frame ?sp2 raw) (map snd COLUMN_MAPPING) =
                          frame sp3 raw"
    and t3: "tidy ?E sp3" and c3: "set (map snd COLUMN_MAPPING) \<subseteq> set (map fst sp3)"
    and l3: "distinct (map fst ?sp2) \<longrightarrow> distinct (map fst sp3)"
    by blast
  have D3: "foldl ensure_column
              (rename COLUMN_MAPPING
                 (if ''_id'' \<in> set (columns (DataFrame raw))
                  then drop_column ''_id'' (DataFrame raw) else DataFrame raw))
              (map snd COLUMN_MAPPING) = frame sp3 raw"
    unfolding d2 d3 by (rule refl)
  from ok ne have "and_then (for_each (convert_cutoff P) CUTOFF_COLUMNS (frame sp3 raw))
          (\<lambda>df. and_then (for_each (convert_seats P) seat_cols df) (\<lambda>df. Inr (reorder df))) =
        Inr df"
    unfolding process_data_def Let_def D3 by simp
  then obtain d4 d5 where
    s4: "for_each (convert_cutoff P) CUTOFF_COLUMNS (frame sp3 raw) = Inr d4" and
    s5: "for_each (convert_seats P) seat_cols d4 = Inr d5" and
    df: "df = reorder d5"
    by (auto simp: and_then_Inr)
  let ?sp4 = "foldl (convert_spec (to_numeric P)) sp3 CUTOFF_COLUMNS"
  let ?sp5 = "foldl (convert_spec (to_numeric P)) ?sp4 seat_cols"
  have d4: "d4 = frame ?sp4 raw"
    using convert_cutoff_frame s4 by (rule for_each_frame)
  have d5: "d5 = frame ?sp5 raw"
    using convert_seats_frame s5 [unfolded d4] by (rule for_each_frame)
  have cs: "set CUTOFF_COLUMNS \<subseteq> set (map snd COLUMN_MAPPING)"
    by (simp add: CUTOFF_COLUMNS_def COLUMN_MAPPING_def)
  have ss: "set seat_cols \<subseteq> set (map snd COLUMN_MAPPING)"
    unfolding seat_cols_def by (rule filter_is_subset)
  from t3 cs have "tidy ?E ?sp4" by (rule tidy_conversions)
  from this ss have t5: "tidy ?E ?sp5" by (rule tidy_conversions)
  from c3 have c5: "set (map snd COLUMN_MAPPING) \<subseteq> set (map fst ?sp5)" by simp
  have "no_strings {} raw sp3" by (simp add: no_strings_def)
  then have "no_strings ({} \<union> set CUTOFF_COLUMNS) raw ?sp4"
    by (rule no_strings_conversions)
  then have "no_strings ({} \<union> set CUTOFF_COLUMNS \<union> set seat_cols) raw ?sp5"
    by (rule no_strings_conversions)
  then have n5: "no_strings (set CUTOFF_COLUMNS \<union> set seat_cols) raw ?sp5"
    by simp
  have l5: "distinct (map fst ?sp5)" and w5: "whole_numbers (set seat_cols) raw ?sp5"
    if "no_clash raw"
  proof -
    from that have "distinct (map fst ?sp2)" by (rule l2)
    with l3 have "distinct (map fst sp3)" by blast
    then show "distinct (map fst ?sp5)" by simp
    from \<open>distinct (map fst sp3)\<close> have dl4: "distinct (map fst ?sp4)" by simp
    have "whole_numbers {} raw ?sp4" by (simp add: whole_numbers_def)
    with dl4 have "whole_numbers ({} \<union> set seat_cols) raw ?sp5"
      using s5 [unfolded d4] by (rule whole_seats_loop)
    then show "whole_numbers (set seat_cols) raw ?sp5" by simp
  qed
  from reorder_frame [OF t5 extra_fields_distinct c5, of raw] obtain canon where
    l: "remdups_adj (map fst canon) = map snd COLUMN_MAPPING" and
    ld: "distinct (map fst ?sp5) \<longrightarrow> map fst canon = map snd COLUMN_MAPPING" and
    sub: "set canon \<subseteq> set ?sp5" and
    r: "reorder (frame ?sp5 raw) =
          frame (canon @ map (\<lambda>k. (k, \<lambda>r. cell_of r k)) (extra_fields raw)) raw"
    by blast
  from sub n5 have ns: "no_strings (set CUTOFF_COLUMNS \<union> set seat_cols) raw canon"
    by (rule no_strings_subset)
  have nc: "no_clash raw \<longrightarrow>
              map fst canon = map snd COLUMN_MAPPING \<and>
              whole_numbers (set seat_cols) raw canon"
  proof
    assume c: "no_clash raw"
    then have "distinct (map fst ?sp5)" by (rule l5)
    with ld have "map fst canon = map snd COLUMN_MAPPING" by blast
    moreover from sub w5 [OF c] have "whole_numbers (set seat_cols) raw canon"
      by (rule whole_numbers_subset)
    ultimately show "map fst canon = map snd COLUMN_MAPPING \<and>
              whole_numbers (set seat_cols) raw canon"
      by (rule conjI)
  qed
  from df d5 r have
    "df = frame (canon @ map (\<lambda>k. (k, \<lambda>r. cell_of r k)) (extra_fields raw)) raw"
    by simp
  with l nc ns show ?thesis by blast
qed

text \<open>
  Claim C8. The table that \<^verbatim>\<open>process_data\<close> returns for a list of raw records that is not
  empty has the canonical fields first, in the declared order, followed by the raw fields
  that the mapping does not cover: the fields of the records that are neither a field code
  of the mapping, nor a canonical name, nor the identifier \<^verbatim>\<open>_id\<close>, each once, in the order
  of their first occurrence in the records. Every row follows these labels, and its cells
  after the canonical ones are those of the raw record (null where the record lacks the
  field). Each canonical field is there once when no two fields of the records get the same
  label; when a record field bears the canonical name of a code that a record field bears
  too, the columns of that name stand side by side at the place of the name. On the empty
  list the program returns the table without columns and rows, which has no fields to
  order.
\<close>

theorem column_order:
  "process_data P [] = Inr \<lparr>columns = [], rows = []\<rparr> \<and>
   (raw \<noteq> [] \<and> process_data P raw = Inr df \<longrightarrow>
      (\<exists>canonical.
         columns df = canonical @ extra_fields raw \<and>
         remdups_adj canonical = map snd COLUMN_MAPPING \<and>
         (no_clash raw \<longrightarrow> canonical = map snd COLUMN_MAPPING) \<and>
         distinct (extra_fields raw) \<and>
         set (extra_fields raw) =
           {k \<in> (\<Union>r \<in> set raw. fst ` set r).
              k \<noteq> ''_id'' \<and> k \<notin> fst ` set COLUMN_MAPPING \<and> k \<notin> snd ` set COLUMN_MAPPING} \<and>
         (\<forall>r \<in> set (rows df). map fst r = columns df) \<and>
         map (drop (length canonical)) (rows df) =
           map (\<lambda>r. map (\<lambda>k. (k, cell_of r k)) (extra_fields raw)) raw))"
proof (intro conjI impI)
  show "process_data P [] = Inr \<lparr>columns = [], rows = []\<rparr>"
    by (simp add: process_data_def)
next
  assume "raw \<noteq> [] \<and> process_data P raw = Inr df"
  then have ne: "raw \<noteq> []" and ok: "process_data P raw = Inr df" by simp_all
  from process_data_frame [OF ne ok] obtain canon where
    l: "remdups_adj (map fst canon) = map snd COLUMN_MAPPING" and
    lc: "no_clash raw \<longrightarrow>
           map fst canon = map snd COLUMN_MAPPING \<and> whole_numbers (set seat_cols) raw canon"
    and
    df: "df = frame (canon @ map (\<lambda>k. (k, \<lambda>r. cell_of r k)) (extra_fields raw)) raw"
    by blast
  have n: "length (map fst canon) = length canon" by simp
  have c: "columns df = map fst canon @ extra_fields raw"
    unfolding df by (simp add: o_def)
  from lc have lc': "no_clash raw \<longrightarrow> map fst canon = map snd COLUMN_MAPPING" by blast
  have s: "set (extra_fields raw) =
             {k \<in> (\<Union>r \<in> set raw. fst ` set r).
                k \<noteq> ''_id'' \<and> k \<notin> fst ` set COLUMN_MAPPING \<and> k \<notin> snd ` set COLUMN_MAPPING}"
    by (auto simp: extra_fields_def raw_fields_def)
  have r: "\<forall>r \<in> set (rows df). map fst r = columns df"
    unfolding df by (auto simp: rows_frame o_def)
  have t: "map (drop (length (map fst canon))) (rows df) =
           map (\<lambda>r. map (\<lambda>k. (k, cell_of r k)) (extra_fields raw)) raw"
    unfolding df n by (simp add: rows_frame o_def)
  from c l lc' extra_fields_distinct s r t show "\<exists>canonical.
         columns df = canonical @ extra_fields raw \<and>
         remdups_adj canonical = map snd COLUMN_MAPPING \<and>
         (no_clash raw \<longrightarrow> canonical = map snd COLUMN_MAPPING) \<and>
         distinct (extra_fields raw) \<and>
         set (extra_fields raw) =
           {k \<in> (\<Union>r \<in> set raw. fst ` set r).
              k \<noteq> ''_id'' \<and> k \<notin> fst ` set COLUMN_MAPPING \<and> k \<notin> snd ` set COLUMN_MAPPING} \<and>
         (\<forall>r \<in> set (rows df). map fst r = columns df) \<and>
         map (drop (length canonical)) (rows df) =
           map (\<lambda>r. map (\<lambda>k. (k, cell_of r k)) (extra_fields raw)) raw"
    by (intro exI [of _ "map fst canon"] conjI)
qed

theorem column_order_witness:
  "process_data plain_pandas extra_raw = Inr extra_table \<and>
   no_clash extra_raw \<and>
   extra_fields extra_raw = [''note'', ''zone''] \<and>
   columns extra_table = map snd COLUMN_MAPPING @ [''note'', ''zone''] \<and>
   map (drop (length COLUMN_MAPPING)) (rows extra_table) =
     [[(''note'', Str ''x''), (''zone'', NA)], [(''note'', Str ''y''), (''zone'', Str ''s'')]] \<and>
   map (\<lambda>r. cell_of r ''OC Cutoff'') (rows extra_table) = [NA, Num 170]"
proof -
  have ne: "extra_raw \<noteq> []" by (simp add: extra_raw_def)
  have p: "process_data plain_pandas extra_raw = Inr extra_table"
    by code_simp
  have nc: "no_clash extra_raw"
    by code_simp
  have e: "extra_fields extra_raw = [''note'', ''zone'']"
    by code_simp
  have v: "map (\<lambda>r. map (\<lambda>k. (k, cell_of r k)) [''note'', ''zone'']) extra_raw =
           [[(''note'', Str ''x''), (''zone'', NA)], [(''note'', Str ''y''), (''zone'', Str ''s'')]]"
    by code_simp
  have o: "map (\<lambda>r. cell_of r ''OC Cutoff'') (rows extra_table) = [NA, Num 170]"
    by code_simp
  from conjunct2 [OF column_order [where P = plain_pandas and raw = extra_raw
        and df = extra_table]] ne p
  obtain canonical where
    c: "columns extra_table = canonical @ extra_fields extra_raw" and
    n: "no_clash extra_raw \<longrightarrow> canonical = map snd COLUMN_MAPPING" and
    t: "map (drop (length canonical)) (rows extra_table) =
          map (\<lambda>r. map (\<lambda>k. (k, cell_of r k)) (extra_fields extra_raw)) extra_raw"
    by blast
  from n nc have k: "canonical = map snd COLUMN_MAPPING" by blast
  then have len: "length canonical = length COLUMN_MAPPING" by simp
  from c have c': "columns extra_table = map snd COLUMN_MAPPING @ [''note'', ''zone'']"
    unfolding k e .
  from t have t': "map (drop (length COLUMN_MAPPING)) (rows extra_table) =
     [[(''note'', Str ''x''), (''zone'', NA)], [(''note'', Str ''y''), (''zone'', Str ''s'')]]"
    unfolding len e v .
  from p nc e c' t' o show ?thesis by (intro conjI)
qed

lemma not_str_case: "(case x of Str s \<Rightarrow> False | _ \<Rightarrow> True) = (\<not> is_str x)"
  by (cases x) (simp_all add: is_str_def)

lemma whole_case: "(case x of Str s \<Rightarrow> False | y \<Rightarrow> whole y) = (\<not> is_str x \<and> whole x)"
  by (cases x) (simp_all add: is_str_def)

text \<open>
  When no two fields of the raw records get the same label, every table that
  \<^verbatim>\<open>process_data\<close> returns on a list of records that is not empty is normalized: all
  canonical fields are there in every row, the cutoff cells are numbers or nulls, and the
  seat cells are whole numbers or nulls.
\<close>

lemma process_data_normalized:
  assumes names: "no_clash raw"
    and ne: "raw \<noteq> []" and ok: "process_data P raw = Inr df"
  shows "normalized df"
proof -
  let ?E = "map (\<lambda>k. (k, \<lambda>r. cell_of r k)) (extra_fields raw)"
  from process_data_frame [OF ne ok] names obtain canon where
    l: "map fst canon = map snd COLUMN_MAPPING" and
    ns: "no_strings (set CUTOFF_COLUMNS \<union> set seat_cols) raw canon" and
    wn: "whole_numbers (set seat_cols) raw canon" and
    df: "df = frame (canon @ ?E) raw"
    by blast
  have labels: "map fst (canon @ ?E) = map snd COLUMN_MAPPING @ extra_fields raw"
    by (simp add: l o_def)
  have d: "distinct (map fst (canon @ ?E))"
    unfolding labels
    using canonical_names_distinct extra_fields_distinct extra_fields_not_canonical
    by (simp only: distinct_append) blast
  have cols: "columns df = map fst (canon @ ?E)"
    unfolding df by simp
  have cs: "set CUTOFF_COLUMNS \<subseteq> set (map snd COLUMN_MAPPING)"
    by (simp add: CUTOFF_COLUMNS_def COLUMN_MAPPING_def)
  have ss: "set seat_cols \<subseteq> set (map snd COLUMN_MAPPING)"
    unfolding seat_cols_def by (rule filter_is_subset)
  have getter: "\<exists>g. (c, g) \<in> set canon" if "c \<in> set (map snd COLUMN_MAPPING)" for c
  proof -
    from that have "c \<in> fst ` set canon" by (simp only: l [symmetric] set_map)
    then show ?thesis by force
  qed
  have row: "map fst r' = columns df \<and>
             (\<forall>c \<in> set CUTOFF_COLUMNS. case cell_of r' c of Str s \<Rightarrow> False | _ \<Rightarrow> True) \<and>
             (\<forall>c \<in> set seat_cols. case cell_of r' c of Str s \<Rightarrow> False | x \<Rightarrow> whole x)"
    if "r' \<in> set (rows df)" for r'
  proof -
    from that obtain r where r: "r \<in> set raw"
      and r': "r' = map (\<lambda>lg. (fst lg, snd lg r)) (canon @ ?E)"
      unfolding df rows_frame by auto
    have f: "map fst r' = columns df"
      unfolding r' cols by (simp add: o_def)
    have cut: "case cell_of r' c of Str s \<Rightarrow> False | _ \<Rightarrow> True"
      if c: "c \<in> set CUTOFF_COLUMNS" for c
    proof -
      from c cs getter obtain g where g: "(c, g) \<in> set canon" by blast
      then have "(c, g) \<in> set (canon @ ?E)" by simp
      with d have v: "cell_of r' c = g r" unfolding r' by (rule cell_of_frame_row)
      from ns g c r have "\<not> is_str (snd (c, g) r)" unfolding no_strings_def by fastforce
      with v show ?thesis by (simp add: not_str_case)
    qed
    have seat: "case cell_of r' c of Str s \<Rightarrow> False | x \<Rightarrow> whole x"
      if c: "c \<in> set seat_cols" for c
    proof -
      from c ss getter obtain g where g: "(c, g) \<in> set canon" by blast
      then have "(c, g) \<in> set (canon @ ?E)" by simp
      with d have v: "cell_of r' c = g r" unfolding r' by (rule cell_of_frame_row)
      from ns g c r have "\<not> is_str (snd (c, g) r)" unfolding no_strings_def by fastforce
      moreover from wn g c r have "whole (snd (c, g) r)" unfolding whole_numbers_def by fastforce
      ultimately show ?thesis using v by (simp add: whole_case)
    qed
    from f cut seat show ?thesis by blast
  qed
  have sub: "set (map snd COLUMN_MAPPING) \<subseteq> set (columns df)"
    unfolding cols labels by simp
  from d cols have "distinct (columns df)" by simp
  with sub row show ?thesis unfolding normalized_def by blast
qed

text \<open>
  Claim C5. The claim has every list of raw records normalized, the seat fields like the
  cutoff fields: read as numbers, null where they cannot be. Whenever \<^verbatim>\<open>process_data\<close>
  returns, the table is as the claim says (\<open>process_data_normalized\<close>). For a seat count
  that is a number but not a whole one it does not return: the cast to the nullable
  integer type (\<^verbatim>\<open>.astype('Int64')\<close>) refuses the number and raises. Here the record is
  \<^verbatim>\<open>{"octl": 3.5}\<close>.
\<close>

theorem fractional_seat_raises:
  "process_data P [[(''octl'', Num (7 / 2))]] = Inl TypeError"
  by code_simp

end
